theory Spec2Isabelle
  imports Complex_Main "HOL-Library.Word" "HOL-Library.Signed_Division" "HOL-Library.Stream"
begin

unbundle bit_operations_syntax

section \<open>Procedural noise and heightmaps: the model of terrain/noise.cpp\<close>

text \<open>
  The development follows \<^verbatim>\<open>src/terrain/noise.cpp\<close> function by function and keeps its
  names. Conventions of the embedding:

  \<^item> \<^verbatim>\<open>double\<close> and \<^verbatim>\<open>float\<close> values are real numbers: every arithmetic operation is
    the exact one, rounding and overflow to infinity are left out. The one IEEE effect
    the claims speak about, a division whose divisor is zero, is kept: \<open>fdiv\<close> below
    returns the quotient, an infinity or NaN.
  \<^item> \<^verbatim>\<open>int\<close> values are mathematical integers. \<^verbatim>\<open>/\<close> and \<^verbatim>\<open>%\<close> on them are the
    truncating \<open>sdiv\<close> and \<open>smod\<close>; \<^verbatim>\<open>& 255\<close> is \<open>AND 255\<close> (two's complement).
  \<^item> \<^verbatim>\<open>std::vector\<close> is a list, \<^verbatim>\<open>v[i]\<close> is \<open>v ! nat i\<close>; where the source writes
    through an unchecked index the model checks it and reports \<open>OutOfBounds\<close>.
  \<^item> The C++ standard library is not part of the repository. What it draws at random
    is a parameter of the model: \<open>urbg\<close> gives, for a seed, the numbers that
    \<^verbatim>\<open>std::default_random_engine\<close> hands to \<^verbatim>\<open>std::shuffle\<close>, and a stream of reals
    stands for the successive values of \<^verbatim>\<open>dist(rng)\<close>.
\<close>

subsection \<open>Division of floating-point numbers\<close>

datatype quotient = Quot real | PosInf | NegInf | NaN

definition fdiv :: "real \<Rightarrow> real \<Rightarrow> quotient" where
  "fdiv a b =
     (if b \<noteq> 0 then Quot (a / b)
      else if a = 0 then NaN
      else if 0 < a then PosInf else NegInf)"

subsection \<open>Permutation tables\<close>

type_synonym urbg = "32 word \<Rightarrow> nat \<Rightarrow> nat"

definition iota :: "nat \<Rightarrow> int list" where
  "iota n = map int [0..<n]"

definition iter_swap :: "nat \<Rightarrow> nat \<Rightarrow> 'a list \<Rightarrow> 'a list" where
  "iter_swap i j xs = xs[i := xs ! j, j := xs ! i]"

text \<open>
  \<^verbatim>\<open>std::shuffle(first, last, g)\<close>: for every position \<open>i\<close> from 1 on, the element at
  \<open>i\<close> is swapped with the element at a position between 0 and \<open>i\<close> that the
  generator chooses (the loop of libstdc++; the standard only promises a permutation).
  \<open>g i\<close> is the number drawn for position \<open>i\<close>.
\<close>

primrec shuffle_loop :: "(nat \<Rightarrow> nat) \<Rightarrow> nat list \<Rightarrow> 'a list \<Rightarrow> 'a list" where
  "shuffle_loop g [] xs = xs"
| "shuffle_loop g (i # is) xs = shuffle_loop g is (iter_swap i (g i mod (i + 1)) xs)"

definition shuffle :: "(nat \<Rightarrow> nat) \<Rightarrow> 'a list \<Rightarrow> 'a list" where
  "shuffle g xs = shuffle_loop g [1..<length xs] xs"

definition base_table :: "urbg \<Rightarrow> 32 word \<Rightarrow> int list" where
  "base_table engine seed = shuffle (engine seed) (iota 256)"

subsection \<open>Perlin noise\<close>

record PerlinNoise =
  p :: "int list"

definition fade :: "real \<Rightarrow> real" where
  "fade t = t * t * t * (t * (t * 6 - 15) + 10)"

definition lerp :: "real \<Rightarrow> real \<Rightarrow> real \<Rightarrow> real" where
  "lerp t a b = a + t * (b - a)"

definition grad :: "int \<Rightarrow> real \<Rightarrow> real \<Rightarrow> real \<Rightarrow> real" where
  "grad hash x y z =
     (let h = hash AND 15;
          u = (if h < 8 then x else y);
          v = (if h < 4 then y else if h = 12 \<or> h = 14 then x else z)
      in (if h AND 1 = 0 then u else - u) + (if h AND 2 = 0 then v else - v))"

definition PerlinNoise_new :: "urbg \<Rightarrow> 32 word \<Rightarrow> PerlinNoise" where
  "PerlinNoise_new engine seed =
     (let t = shuffle (engine seed) (iota 256) in \<lparr> p = t @ t \<rparr>)"

definition vec_at :: "int list \<Rightarrow> int \<Rightarrow> int" where
  "vec_at t i = t ! nat i"

definition noise :: "PerlinNoise \<Rightarrow> real \<Rightarrow> real \<Rightarrow> real \<Rightarrow> real" where
  "noise e x y z =
     (let X = \<lfloor>x\<rfloor> AND 255;
          Y = \<lfloor>y\<rfloor> AND 255;
          Z = \<lfloor>z\<rfloor> AND 255;
          x = x - of_int \<lfloor>x\<rfloor>;
          y = y - of_int \<lfloor>y\<rfloor>;
          z = z - of_int \<lfloor>z\<rfloor>;
          u = fade x;
          v = fade y;
          w = fade z;
          A = vec_at (p e) X + Y;
          AA = vec_at (p e) A + Z;
          AB = vec_at (p e) (A + 1) + Z;
          B = vec_at (p e) (X + 1) + Y;
          BA = vec_at (p e) B + Z;
          BB = vec_at (p e) (B + 1) + Z;
          res = lerp w
                  (lerp v (lerp u (grad (vec_at (p e) AA) x y z) (grad (vec_at (p e) BA) (x - 1) y z))
                          (lerp u (grad (vec_at (p e) AB) x (y - 1) z)
                                  (grad (vec_at (p e) BB) (x - 1) (y - 1) z)))
                  (lerp v (lerp u (grad (vec_at (p e) (AA + 1)) x y (z - 1))
                                  (grad (vec_at (p e) (BA + 1)) (x - 1) y (z - 1)))
                          (lerp u (grad (vec_at (p e) (AB + 1)) x (y - 1) (z - 1))
                                  (grad (vec_at (p e) (BB + 1)) (x - 1) (y - 1) (z - 1))))
      in (res + 1) / 2)"

definition noise2D :: "PerlinNoise \<Rightarrow> real \<Rightarrow> real \<Rightarrow> real" where
  "noise2D e x y = noise e x y 0"




text \<open>
  \<^verbatim>\<open>generatePerlinNoise\<close> keeps its engine in a function-local \<^verbatim>\<open>static\<close>: the
  engine is built from the seed of the first call and reused by every later call. The
  static is explicit state here: \<open>None\<close> before the first call.
\<close>

definition generatePerlinNoise ::
    "urbg \<Rightarrow> PerlinNoise option \<Rightarrow> real \<Rightarrow> real \<Rightarrow> real \<Rightarrow> 32 word \<Rightarrow> real \<times> PerlinNoise option" where
  "generatePerlinNoise engine static x y z seed =
     (let perlin = (case static of None \<Rightarrow> PerlinNoise_new engine seed | Some e \<Rightarrow> e)
      in (noise perlin x y z, Some perlin))"

subsection \<open>Simplex noise\<close>

record SimplexNoise =
  perm :: "int list"

definition grad3 :: "int list list" where
  "grad3 = [[1, 1, 0], [-1, 1, 0], [1, -1, 0], [-1, -1, 0], [1, 0, 1], [-1, 0, 1],
            [1, 0, -1], [-1, 0, -1], [0, 1, 1], [0, -1, 1], [0, 1, -1], [0, -1, -1]]"

definition F2 :: real where
  "F2 = 0.5 * (sqrt 3 - 1)"

definition G2 :: real where
  "G2 = (3 - sqrt 3) / 6"

text \<open>The cast \<^verbatim>\<open>(int)x\<close> truncates towards zero.\<close>

definition int_cast :: "real \<Rightarrow> int" where
  "int_cast x = (if 0 \<le> x then \<lfloor>x\<rfloor> else \<lceil>x\<rceil>)"

definition fastfloor :: "real \<Rightarrow> int" where
  "fastfloor x = (let xi = int_cast x in if x < of_int xi then xi - 1 else xi)"

definition dot :: "int list \<Rightarrow> real \<Rightarrow> real \<Rightarrow> real" where
  "dot g x y = of_int (g ! 0) * x + of_int (g ! 1) * y"

definition SimplexNoise_new :: "urbg \<Rightarrow> 32 word \<Rightarrow> SimplexNoise" where
  "SimplexNoise_new engine seed =
     (let t = shuffle (engine seed) (iota 256)
      in \<lparr> perm = map (\<lambda>i. t ! (i AND 255)) [0..<512] \<rparr>)"

definition simplex_noise2D :: "SimplexNoise \<Rightarrow> real \<Rightarrow> real \<Rightarrow> real" where
  "simplex_noise2D e xin yin =
     (let s = (xin + yin) * F2;
          i = fastfloor (xin + s);
          j = fastfloor (yin + s);
          t = of_int (i + j) * G2;
          X0 = of_int i - t;
          Y0 = of_int j - t;
          x0 = xin - X0;
          y0 = yin - Y0;
          i1 = (if x0 > y0 then 1 else 0);
          j1 = (if x0 > y0 then 0 else 1);
          x1 = x0 - of_int i1 + G2;
          y1 = y0 - of_int j1 + G2;
          x2 = x0 - 1 + 2 * G2;
          y2 = y0 - 1 + 2 * G2;
          ii = i AND 255;
          jj = j AND 255;
          gi0 = vec_at (perm e) (ii + vec_at (perm e) jj) smod 12;
          gi1 = vec_at (perm e) (ii + i1 + vec_at (perm e) (jj + j1)) smod 12;
          gi2 = vec_at (perm e) (ii + 1 + vec_at (perm e) (jj + 1)) smod 12;
          t0 = 0.5 - x0 * x0 - y0 * y0;
          n0 = (if t0 < 0 then 0
                else (let t0 = t0 * t0 in t0 * t0 * dot (grad3 ! nat gi0) x0 y0));
          t1 = 0.5 - x1 * x1 - y1 * y1;
          n1 = (if t1 < 0 then 0
                else (let t1 = t1 * t1 in t1 * t1 * dot (grad3 ! nat gi1) x1 y1));
          t2 = 0.5 - x2 * x2 - y2 * y2;
          n2 = (if t2 < 0 then 0
                else (let t2 = t2 * t2 in t2 * t2 * dot (grad3 ! nat gi2) x2 y2))
      in (70 * (n0 + n1 + n2) + 1) / 2)"

definition generateSimplexNoise ::
    "urbg \<Rightarrow> SimplexNoise option \<Rightarrow> real \<Rightarrow> real \<Rightarrow> 32 word \<Rightarrow> real \<times> SimplexNoise option" where
  "generateSimplexNoise engine static x y seed =
     (let simplex = (case static of None \<Rightarrow> SimplexNoise_new engine seed | Some e \<Rightarrow> e)
      in (simplex_noise2D simplex x y, Some simplex))"

subsection \<open>Fractional Brownian motion\<close>

text \<open>
  The octave loop is the same text in \<^verbatim>\<open>generatePerlinFBM\<close> and
  \<^verbatim>\<open>generateSimplexFBM\<close>; \<open>sample\<close> is the \<^verbatim>\<open>noise2D\<close> of the engine built by the
  caller. The loop returns \<^verbatim>\<open>total\<close> and \<^verbatim>\<open>maxValue\<close>.
\<close>

function octave_loop ::
    "(real \<Rightarrow> real \<Rightarrow> real) \<Rightarrow> real \<Rightarrow> real \<Rightarrow> int \<Rightarrow> real \<Rightarrow> real \<Rightarrow>
     int \<Rightarrow> real \<Rightarrow> real \<Rightarrow> real \<Rightarrow> real \<Rightarrow> real \<times> real" where
  "octave_loop sample x y octaves persistence lacunarity i tot frequency amplitude maxValue =
     (if i < octaves
      then octave_loop sample x y octaves persistence lacunarity (i + 1)
             (tot + sample (x * frequency) (y * frequency) * amplitude)
             (frequency * lacunarity)
             (amplitude * persistence)
             (maxValue + amplitude)
      else (tot, maxValue))"
  by pat_completeness auto
termination
  by (relation "measure (\<lambda>(sample, x, y, octaves, persistence, lacunarity, i, rest). nat (octaves - i))")
     auto

declare octave_loop.simps [simp del]

definition generatePerlinFBM ::
    "urbg \<Rightarrow> real \<Rightarrow> real \<Rightarrow> int \<Rightarrow> real \<Rightarrow> real \<Rightarrow> 32 word \<Rightarrow> quotient" where
  "generatePerlinFBM engine x y octaves persistence lacunarity seed =
     (let perlin = PerlinNoise_new engine seed;
          (tot, maxValue) = octave_loop (noise2D perlin) x y octaves persistence lacunarity 0 0 1 1 0
      in fdiv tot maxValue)"

definition generateSimplexFBM ::
    "urbg \<Rightarrow> real \<Rightarrow> real \<Rightarrow> int \<Rightarrow> real \<Rightarrow> real \<Rightarrow> 32 word \<Rightarrow> quotient" where
  "generateSimplexFBM engine x y octaves persistence lacunarity seed =
     (let simplex = SimplexNoise_new engine seed;
          (tot, maxValue) =
             octave_loop (simplex_noise2D simplex) x y octaves persistence lacunarity 0 0 1 1 0
      in fdiv tot maxValue)"

subsection \<open>Diamond-square\<close>

datatype ds_error = AllocFailure | OutOfBounds | NotANumber | Diverges

text \<open>
  \<open>rng\<close> is the sequence of values that \<^verbatim>\<open>dist(rng)\<close> is still to return; it stands
  for the two members \<^verbatim>\<open>rng\<close> and \<^verbatim>\<open>dist\<close>. \<open>size'\<close> is the member \<^verbatim>\<open>size\<close>.
\<close>

record DiamondSquare =
  heightmap :: "real list list"
  size' :: int
  rng :: "real stream"

definition dist_rng :: "DiamondSquare \<Rightarrow> real \<times> DiamondSquare" where
  "dist_rng st = (shd (rng st), st\<lparr>rng := stl (rng st)\<rparr>)"

definition getHeight :: "DiamondSquare \<Rightarrow> int \<Rightarrow> int \<Rightarrow> bool \<Rightarrow> real" where
  "getHeight st x y wrap =
     (let x = (if wrap then (x + size' st) smod size' st else x);
          y = (if wrap then (y + size' st) smod size' st else y)
      in if x < 0 \<or> x \<ge> size' st \<or> y < 0 \<or> y \<ge> size' st then 0
         else heightmap st ! nat x ! nat y)"

definition setHeight :: "DiamondSquare \<Rightarrow> int \<Rightarrow> int \<Rightarrow> real \<Rightarrow> DiamondSquare" where
  "setHeight st x y val =
     (if x \<ge> 0 \<and> x < size' st \<and> y \<ge> 0 \<and> y < size' st
      then st\<lparr>heightmap := (heightmap st)[nat x := (heightmap st ! nat x)[nat y := val]]\<rparr>
      else st)"

definition diamondStep :: "DiamondSquare \<Rightarrow> int \<Rightarrow> int \<Rightarrow> int \<Rightarrow> real \<Rightarrow> DiamondSquare" where
  "diamondStep st x y stepSize randomRange =
     (let avg = (getHeight st (x - stepSize) (y - stepSize) False +
                 getHeight st (x + stepSize) (y - stepSize) False +
                 getHeight st (x - stepSize) (y + stepSize) False +
                 getHeight st (x + stepSize) (y + stepSize) False) / 4;
          (d, st) = dist_rng st;
          randomValue = d * randomRange * 2 - randomRange
      in setHeight st x y (avg + randomValue))"

text \<open>The sum and the count that \<^verbatim>\<open>squareStep\<close> accumulates over its four tests.\<close>

definition squareStep_neighbours :: "DiamondSquare \<Rightarrow> int \<Rightarrow> int \<Rightarrow> int \<Rightarrow> bool \<Rightarrow> real \<times> int" where
  "squareStep_neighbours st x y stepSize wrap =
     (let (sm, count) = (0, 0);
          (sm, count) = (if wrap \<or> y - stepSize \<ge> 0
                         then (sm + getHeight st x (y - stepSize) wrap, count + 1)
                         else (sm, count));
          (sm, count) = (if wrap \<or> x + stepSize < size' st
                         then (sm + getHeight st (x + stepSize) y wrap, count + 1)
                         else (sm, count));
          (sm, count) = (if wrap \<or> y + stepSize < size' st
                         then (sm + getHeight st x (y + stepSize) wrap, count + 1)
                         else (sm, count));
          (sm, count) = (if wrap \<or> x - stepSize \<ge> 0
                         then (sm + getHeight st (x - stepSize) y wrap, count + 1)
                         else (sm, count))
      in (sm, count))"

text \<open>
  \<^verbatim>\<open>sum / (float)count\<close> with a count of zero is 0/0, a NaN that the source would store in
  the cell. The grid of the model holds reals, so the step stops there with
  \<open>NotANumber\<close>.
\<close>

definition squareStep ::
    "DiamondSquare \<Rightarrow> int \<Rightarrow> int \<Rightarrow> int \<Rightarrow> real \<Rightarrow> bool \<Rightarrow> ds_error + DiamondSquare" where
  "squareStep st x y stepSize randomRange wrap =
     (let (sm, count) = squareStep_neighbours st x y stepSize wrap
      in case fdiv sm (of_int count) of
           Quot avg \<Rightarrow>
             (let (d, st) = dist_rng st;
                  randomValue = d * randomRange * 2 - randomRange
              in Inr (setHeight st x y (avg + randomValue)))
         | _ \<Rightarrow> Inl NotANumber)"

text \<open>
  The constructor. A negative \<^verbatim>\<open>mapSize\<close> becomes a huge \<^verbatim>\<open>size_t\<close> and
  \<^verbatim>\<open>std::vector\<close> throws. \<open>twister\<close> gives, for a seed, the values that \<^verbatim>\<open>dist\<close> will
  draw from \<^verbatim>\<open>std::mt19937\<close>.
\<close>

definition DiamondSquare_new ::
    "(32 word \<Rightarrow> real stream) \<Rightarrow> int \<Rightarrow> 32 word \<Rightarrow> ds_error + DiamondSquare" where
  "DiamondSquare_new twister mapSize seed =
     (if mapSize < 0 then Inl AllocFailure
      else Inr \<lparr> heightmap = replicate (nat mapSize) (replicate (nat mapSize) 0),
                 size' = mapSize,
                 rng = twister seed \<rparr>)"

text \<open>The unchecked write \<^verbatim>\<open>heightmap[x][y] = val\<close>.\<close>

definition store :: "DiamondSquare \<Rightarrow> int \<Rightarrow> int \<Rightarrow> real \<Rightarrow> ds_error + DiamondSquare" where
  "store st x y val =
     (if 0 \<le> x \<and> nat x < length (heightmap st) \<and> 0 \<le> y \<and> nat y < length (heightmap st ! nat x)
      then Inr (st\<lparr>heightmap := (heightmap st)[nat x := (heightmap st ! nat x)[nat y := val]]\<rparr>)
      else Inl OutOfBounds)"

definition init_corners :: "DiamondSquare \<Rightarrow> ds_error + DiamondSquare" where
  "init_corners st =
     (let (d, st) = dist_rng st in
      case store st 0 0 d of Inl e \<Rightarrow> Inl e | Inr st \<Rightarrow>
     (let (d, st) = dist_rng st in
      case store st (size' st - 1) 0 d of Inl e \<Rightarrow> Inl e | Inr st \<Rightarrow>
     (let (d, st) = dist_rng st in
      case store st 0 (size' st - 1) d of Inl e \<Rightarrow> Inl e | Inr st \<Rightarrow>
     (let (d, st) = dist_rng st in
      store st (size' st - 1) (size' st - 1) d))))"

text \<open>
  The loops of \<^verbatim>\<open>generate\<close>, innermost first. \<open>n\<close> is the member \<^verbatim>\<open>size\<close>, which
  nothing assigns after the constructor. A \<^verbatim>\<open>for\<close> loop whose increment is not
  positive would never leave its body: that is \<open>Diverges\<close>.
\<close>

function diamond_x ::
    "int \<Rightarrow> DiamondSquare \<Rightarrow> int \<Rightarrow> int \<Rightarrow> int \<Rightarrow> int \<Rightarrow> real \<Rightarrow> ds_error + DiamondSquare" where
  "diamond_x n st x y stepSize halfStep randomRange =
     (if x < n
      then (if stepSize \<le> 0 then Inl Diverges
            else diamond_x n (diamondStep st x y halfStep randomRange) (x + stepSize) y
                   stepSize halfStep randomRange)
      else Inr st)"
  by pat_completeness auto
termination
  by (relation "measure (\<lambda>(n, st, x, rest). nat (n - x))") auto

function diamond_y ::
    "int \<Rightarrow> DiamondSquare \<Rightarrow> int \<Rightarrow> int \<Rightarrow> int \<Rightarrow> real \<Rightarrow> ds_error + DiamondSquare" where
  "diamond_y n st y stepSize halfStep randomRange =
     (if y < n
      then (if stepSize \<le> 0 then Inl Diverges
            else case diamond_x n st halfStep y stepSize halfStep randomRange of
                   Inl e \<Rightarrow> Inl e
                 | Inr st \<Rightarrow> diamond_y n st (y + stepSize) stepSize halfStep randomRange)
      else Inr st)"
  by pat_completeness auto
termination
  by (relation "measure (\<lambda>(n, st, y, rest). nat (n - y))") auto

function square_x ::
    "int \<Rightarrow> DiamondSquare \<Rightarrow> int \<Rightarrow> int \<Rightarrow> int \<Rightarrow> int \<Rightarrow> real \<Rightarrow> bool \<Rightarrow> ds_error + DiamondSquare" where
  "square_x n st x y stepSize halfStep randomRange wrap =
     (if x < n
      then (if stepSize \<le> 0 then Inl Diverges
            else case squareStep st x y halfStep randomRange wrap of
                   Inl e \<Rightarrow> Inl e
                 | Inr st \<Rightarrow> square_x n st (x + stepSize) y stepSize halfStep randomRange wrap)
      else Inr st)"
  by pat_completeness auto
termination
  by (relation "measure (\<lambda>(n, st, x, rest). nat (n - x))") auto

function square_y ::
    "int \<Rightarrow> DiamondSquare \<Rightarrow> int \<Rightarrow> int \<Rightarrow> int \<Rightarrow> real \<Rightarrow> bool \<Rightarrow> ds_error + DiamondSquare" where
  "square_y n st y stepSize halfStep randomRange wrap =
     (if y < n
      then (if halfStep \<le> 0 then Inl Diverges
            else case square_x n st ((y + halfStep) smod stepSize) y stepSize halfStep
                        randomRange wrap of
                   Inl e \<Rightarrow> Inl e
                 | Inr st \<Rightarrow> square_y n st (y + halfStep) stepSize halfStep randomRange wrap)
      else Inr st)"
  by pat_completeness auto
termination
  by (relation "measure (\<lambda>(n, st, y, rest). nat (n - y))") auto

function step_loop ::
    "int \<Rightarrow> DiamondSquare \<Rightarrow> int \<Rightarrow> real \<Rightarrow> real \<Rightarrow> bool \<Rightarrow> ds_error + DiamondSquare" where
  "step_loop n st stepSize randomRange roughness wrap =
     (if stepSize > 1
      then (let halfStep = stepSize sdiv 2 in
            case diamond_y n st halfStep stepSize halfStep randomRange of
              Inl e \<Rightarrow> Inl e
            | Inr st \<Rightarrow>
               (case square_y n st 0 stepSize halfStep randomRange wrap of
                  Inl e \<Rightarrow> Inl e
                | Inr st \<Rightarrow>
                    step_loop n st (stepSize sdiv 2) (randomRange * (2 powr (- roughness)))
                      roughness wrap))
      else Inr st)"
  by pat_completeness auto
termination
  by (relation "measure (\<lambda>(n, st, stepSize, rest). nat stepSize)")
     (auto simp: signed_divide_int_def sgn_if)

declare diamond_x.simps [simp del] diamond_y.simps [simp del] square_x.simps [simp del]
  square_y.simps [simp del] step_loop.simps [simp del]

text \<open>
  \<^verbatim>\<open>normalize\<close>. The first pair of loops reads every cell, index \<open>y\<close> outermost, and
  keeps the least and the greatest value; the second pair writes every cell in place.
  The read \<^verbatim>\<open>heightmap[0][0]\<close> that comes first is unchecked.
\<close>

definition flat_epsilon :: real where
  "flat_epsilon = 0.0001"

definition minmax_scan :: "DiamondSquare \<Rightarrow> real \<times> real" where
  "minmax_scan st =
     (let n = nat (size' st);
          h = heightmap st ! 0 ! 0
      in fold (\<lambda>y. fold (\<lambda>x (minVal, maxVal).
                            (min minVal (heightmap st ! x ! y), max maxVal (heightmap st ! x ! y)))
                         [0..<n])
              [0..<n] (h, h))"

definition normalize_ds :: "DiamondSquare \<Rightarrow> ds_error + DiamondSquare" where
  "normalize_ds st =
     (if heightmap st = [] \<or> heightmap st ! 0 = [] then Inl OutOfBounds
      else (let (minVal, maxVal) = minmax_scan st;
                range' = maxVal - minVal;
                n = nat (size' st)
            in if range' > flat_epsilon
               then Inr (fold (\<lambda>y. fold (\<lambda>x st.
                                 st\<lparr>heightmap := (heightmap st)
                                      [x := (heightmap st ! x)
                                         [y := (heightmap st ! x ! y - minVal) / range']]\<rparr>)
                               [0..<n])
                          [0..<n] st)
               else Inr st))"

text \<open>\<open>generate_rounds\<close> is \<^verbatim>\<open>generate\<close> up to, and without, the call of \<^verbatim>\<open>normalize\<close>.\<close>

definition generate_rounds :: "DiamondSquare \<Rightarrow> real \<Rightarrow> bool \<Rightarrow> ds_error + DiamondSquare" where
  "generate_rounds st roughness wrap =
     (case init_corners st of
        Inl e \<Rightarrow> Inl e
      | Inr st \<Rightarrow> step_loop (size' st) st (size' st - 1) 1 roughness wrap)"

definition generate :: "DiamondSquare \<Rightarrow> real \<Rightarrow> bool \<Rightarrow> ds_error + DiamondSquare" where
  "generate st roughness wrap =
     (case generate_rounds st roughness wrap of
        Inl e \<Rightarrow> Inl e
      | Inr st \<Rightarrow> normalize_ds st)"

definition generateDiamondSquareNoise ::
    "(32 word \<Rightarrow> real stream) \<Rightarrow> int \<Rightarrow> real \<Rightarrow> 32 word \<Rightarrow> bool \<Rightarrow> ds_error + real list list" where
  "generateDiamondSquareNoise twister sz roughness seed wrap =
     (case DiamondSquare_new twister sz seed of
        Inl e \<Rightarrow> Inl e
      | Inr ds \<Rightarrow>
          (case generate ds roughness wrap of
             Inl e \<Rightarrow> Inl e
           | Inr ds \<Rightarrow> Inr (heightmap ds)))"

subsection \<open>The indices at which the tables are read\<close>

text \<open>
  The indices at which \<^verbatim>\<open>PerlinNoise::noise\<close> and \<^verbatim>\<open>SimplexNoise::noise2D\<close> read
  their table, in the order of the source.
\<close>

definition noise_reads :: "PerlinNoise \<Rightarrow> real \<Rightarrow> real \<Rightarrow> real \<Rightarrow> int list" where
  "noise_reads e x y z =
     (let X = \<lfloor>x\<rfloor> AND 255;
          Y = \<lfloor>y\<rfloor> AND 255;
          Z = \<lfloor>z\<rfloor> AND 255;
          A = vec_at (p e) X + Y;
          AA = vec_at (p e) A + Z;
          AB = vec_at (p e) (A + 1) + Z;
          B = vec_at (p e) (X + 1) + Y;
          BA = vec_at (p e) B + Z;
          BB = vec_at (p e) (B + 1) + Z
      in [X, A, A + 1, X + 1, B, B + 1, AA, BA, AB, BB, AA + 1, BA + 1, AB + 1, BB + 1])"

definition simplex_reads :: "SimplexNoise \<Rightarrow> real \<Rightarrow> real \<Rightarrow> int list" where
  "simplex_reads e xin yin =
     (let s = (xin + yin) * F2;
          i = fastfloor (xin + s);
          j = fastfloor (yin + s);
          t = of_int (i + j) * G2;
          x0 = xin - (of_int i - t);
          y0 = yin - (of_int j - t);
          i1 = (if x0 > y0 then 1 else 0);
          j1 = (if x0 > y0 then 0 else 1);
          ii = i AND 255;
          jj = j AND 255
      in [jj, ii + vec_at (perm e) jj,
          jj + j1, ii + i1 + vec_at (perm e) (jj + j1),
          jj + 1, ii + 1 + vec_at (perm e) (jj + 1)])"

subsection \<open>Notions of the specification\<close>

text \<open>A size is valid when it is \<open>2 ^ n + 1\<close> for some \<open>n \<ge> 1\<close>.\<close>

function is_pow2 :: "nat \<Rightarrow> bool" where
  "is_pow2 k = (if k \<le> 1 then k = 1 else even k \<and> is_pow2 (k div 2))"
  by pat_completeness auto
termination
  by (relation "measure id") auto

declare is_pow2.simps [simp del]

definition valid_size :: "int \<Rightarrow> bool" where
  "valid_size sz = (3 \<le> sz \<and> is_pow2 (nat (sz - 1)))"

text \<open>The invariant of the class: the grid has \<open>size'\<close> columns of \<open>size'\<close> cells.\<close>

definition grid_ok :: "DiamondSquare \<Rightarrow> bool" where
  "grid_ok st =
     (length (heightmap st) = nat (size' st) \<and>
      list_all (\<lambda>col. length col = nat (size' st)) (heightmap st))"


text \<open>
  What a read of the diamond step contributes according to the specification: the
  height of the cell, and 0 for a position outside the grid.
\<close>

definition corner_or_zero :: "DiamondSquare \<Rightarrow> int \<Rightarrow> int \<Rightarrow> real" where
  "corner_or_zero st x y =
     (if 0 \<le> x \<and> x < size' st \<and> 0 \<le> y \<and> y < size' st
      then heightmap st ! nat x ! nat y else 0)"

subsection \<open>Concrete random sources\<close>

text \<open>
  A generator whose every draw leaves the element where it is, a generator that for
  seeds other than 0 exchanges the first two elements, a \<^verbatim>\<open>dist\<close> that always returns
  0, one that returns 0, 0, 0, \<open>flat_epsilon\<close> and then 1/2 for ever, and one that
  returns 0, 0, 0, 1 and then 1/2 for ever.
\<close>

definition identity_urbg :: urbg where
  "identity_urbg seed i = i"


definition flat_twister :: "32 word \<Rightarrow> real stream" where
  "flat_twister seed = sconst 0"


definition ramp_twister :: "32 word \<Rightarrow> real stream" where
  "ramp_twister seed = [0, 0, 0, 1] @- sconst (1 / 2)"

subsection \<open>Concrete grids\<close>

text \<open>
  A state of size 3, and the grids that \<^verbatim>\<open>generate\<close> builds at size 3 from the draws
  of \<open>edge_twister\<close> and of \<open>ramp_twister\<close>.
\<close>

definition sample_grid :: DiamondSquare where
  "sample_grid = \<lparr> heightmap = [[1, 2, 3], [4, 5, 6], [7, 8, 9]], size' = 3, rng = sconst 0 \<rparr>"


definition ramp_grid :: "real list list" where
  "ramp_grid = [[0, 1 / 12, 0], [1 / 12, 1 / 4, 5 / 12], [0, 5 / 12, 1]]"

section \<open>Permutation tables\<close>

lemma length_iter_swap [simp]: "length (iter_swap i j xs) = length xs"
  by (simp add: iter_swap_def)

lemma set_iter_swap: "i < length xs \<Longrightarrow> j < length xs \<Longrightarrow> set (iter_swap i j xs) = set xs"
  unfolding iter_swap_def by (rule set_swap)

lemma distinct_iter_swap:
  "i < length xs \<Longrightarrow> j < length xs \<Longrightarrow> distinct (iter_swap i j xs) = distinct xs"
  unfolding iter_swap_def by (rule distinct_swap)

lemma shuffle_loop_permutes:
  "\<forall>i\<in>set is. i < length xs \<Longrightarrow>
     length (shuffle_loop g is xs) = length xs \<and>
     set (shuffle_loop g is xs) = set xs \<and>
     distinct (shuffle_loop g is xs) = distinct xs"
proof (induction "is" arbitrary: xs)
  case Nil
  then show ?case by simp
next
  case (Cons i "is")
  let ?j = "g i mod (i + 1)"
  let ?ys = "iter_swap i ?j xs"
  from Cons.prems have i: "i < length xs" by simp
  have "?j < i + 1" by (rule mod_less_divisor) simp
  with i have j: "?j < length xs" by linarith
  have "\<forall>k\<in>set is. k < length ?ys" using Cons.prems by simp
  from Cons.IH[OF this] set_iter_swap[OF i j] distinct_iter_swap[OF i j] show ?case
    by simp
qed

lemma shuffle_permutes:
  "length (shuffle g xs) = length xs \<and> set (shuffle g xs) = set xs \<and>
   distinct (shuffle g xs) = distinct xs"
  unfolding shuffle_def by (rule shuffle_loop_permutes) simp

lemma iota_props: "length (iota n) = n \<and> distinct (iota n) \<and> set (iota n) = {0..<int n}"
proof -
  have "int ` {0..<n} = {0..<int n}"
    by (simp add: image_int_atLeastLessThan)
  then show ?thesis
    by (simp add: iota_def distinct_map)
qed

lemma base_table_permutation:
  "length (base_table engine seed) = 256 \<and> distinct (base_table engine seed) \<and>
   set (base_table engine seed) = {0..255}"
proof -
  have "{0..<int 256} = {0..255}" by auto
  then show ?thesis
    unfolding base_table_def using shuffle_permutes[of "engine seed" "iota 256"] iota_props[of 256]
    by simp
qed

text \<open>
  Claim C2. Whatever the generator draws for a seed, the 256 base entries are a
  permutation of 0..255 (256 entries, no value twice, every value present); the Perlin
  table is that permutation twice in a row, 512 entries; the Simplex table has 512
  entries with \<open>perm[i] = base[i & 255]\<close>; and a call of the noise functions leaves
  the engine it finds as it is.
\<close>

theorem permutation_tables:
  "length (base_table engine seed) = 256 \<and>
   distinct (base_table engine seed) \<and>
   set (base_table engine seed) = {0..255} \<and>
   p (PerlinNoise_new engine seed) = base_table engine seed @ base_table engine seed \<and>
   length (p (PerlinNoise_new engine seed)) = 512 \<and>
   length (perm (SimplexNoise_new engine seed)) = 512 \<and>
   (\<forall>i<512. perm (SimplexNoise_new engine seed) ! i = base_table engine seed ! (i AND 255)) \<and>
   snd (generatePerlinNoise engine (Some e) x y z seed') = Some e \<and>
   snd (generateSimplexNoise engine (Some s) x y seed') = Some s"
  using base_table_permutation[of engine seed]
  by (simp add: PerlinNoise_new_def SimplexNoise_new_def base_table_def Let_def
      generatePerlinNoise_def generateSimplexNoise_def)

theorem permutation_tables_witness:
  "(300::nat) < 512 \<and>
   perm (SimplexNoise_new identity_urbg 0) ! 300 = base_table identity_urbg 0 ! (300 AND 255) \<and>
   set (base_table identity_urbg 0) = {0..255}"
  using permutation_tables[of identity_urbg 0] by simp

section \<open>The range of Perlin noise\<close>











section \<open>Perlin noise in the plane\<close>

lemma fade_mirror: "fade (1 - t) = 1 - fade t"
  by (simp add: fade_def algebra_simps power2_eq_square power3_eq_cube)

lemma fade_nonneg: "0 \<le> t \<Longrightarrow> 0 \<le> fade t"
proof -
  assume t: "0 \<le> t"
  have "t * (t * 6 - 15) + 10 = 6 * (t - 5 / 4)\<^sup>2 + 5 / 8"
    by (simp add: power2_eq_square algebra_simps)
  moreover have "0 \<le> 6 * (t - 5 / 4)\<^sup>2 + 5 / 8"
    by (intro add_nonneg_nonneg mult_nonneg_nonneg) simp_all
  ultimately have "0 \<le> t * (t * 6 - 15) + 10" by simp
  with t show ?thesis by (simp add: fade_def)
qed

lemma fade_unit: "0 \<le> t \<Longrightarrow> t \<le> 1 \<Longrightarrow> 0 \<le> fade t \<and> fade t \<le> 1"
  using fade_nonneg[of t] fade_nonneg[of "1 - t"] by (simp add: fade_mirror)

lemma grad_plane: "\<bar>grad h X Y 0\<bar> \<le> \<bar>X\<bar> + \<bar>Y\<bar>"
  by (auto simp: grad_def Let_def)

lemma lerp_abs:
  assumes "0 \<le> t" and "t \<le> 1" and "\<bar>A\<bar> \<le> A'" and "\<bar>B\<bar> \<le> B'"
  shows "\<bar>lerp t A B\<bar> \<le> lerp t A' B'"
proof -
  have "lerp t A B = (1 - t) * A + t * B" by (simp add: lerp_def algebra_simps)
  then have "\<bar>lerp t A B\<bar> \<le> \<bar>(1 - t) * A\<bar> + \<bar>t * B\<bar>" by (simp add: abs_triangle_ineq)
  also have "\<dots> = (1 - t) * \<bar>A\<bar> + t * \<bar>B\<bar>" using assms(1,2) by (simp add: abs_mult)
  also have "\<dots> \<le> (1 - t) * A' + t * B'"
    using assms by (intro add_mono mult_left_mono) simp_all
  also have "\<dots> = lerp t A' B'" by (simp add: lerp_def algebra_simps)
  finally show ?thesis .
qed

text \<open>The blend of a coordinate and its mirror image never exceeds one half.\<close>

lemma fade_blend:
  assumes "0 \<le> a" and "a \<le> 1"
  shows "lerp (fade a) a (1 - a) \<le> 1 / 2"
proof -
  have "1 / 2 - lerp (fade a) a (1 - a) =
          2 * (1 / 2 - a)\<^sup>2 * (6 * (a * (1 - a))\<^sup>2 + 2 * (a * (1 - a)) + 1)"
    by (simp add: lerp_def fade_def power2_eq_square algebra_simps)
  moreover have "0 \<le> a * (1 - a)" using assms by simp
  then have "0 \<le> 6 * (a * (1 - a))\<^sup>2 + 2 * (a * (1 - a)) + 1"
    using assms by (intro add_nonneg_nonneg mult_nonneg_nonneg) simp_all
  then have "0 \<le> 2 * (1 / 2 - a)\<^sup>2 * (6 * (a * (1 - a))\<^sup>2 + 2 * (a * (1 - a)) + 1)"
    by (intro mult_nonneg_nonneg) simp_all
  ultimately show ?thesis by linarith
qed

lemma frac_unit: "0 \<le> x - of_int \<lfloor>x\<rfloor> \<and> x - of_int \<lfloor>x\<rfloor> \<le> (1::real)"
  by linarith


text \<open>
  With \<open>z = 0\<close> the gradient of a corner is at most the sum of the distances to it
  along \<open>x\<close> and \<open>y\<close>, and the blend of these sums is the sum of two blends of a
  coordinate with its mirror image. So the raw value lies in [-1,1] on every table.
\<close>

lemma noise_plane_raw:
  assumes "0 \<le> a" and "a \<le> 1" and "0 \<le> b" and "b \<le> 1"
  shows "\<bar>lerp (fade b) (lerp (fade a) (grad h00 a b 0) (grad h10 (a - 1) b 0))
                       (lerp (fade a) (grad h01 a (b - 1) 0) (grad h11 (a - 1) (b - 1) 0))\<bar> \<le> 1"
proof -
  from fade_unit[OF assms(1,2)] have fa: "0 \<le> fade a" "fade a \<le> 1" by simp_all
  from fade_unit[OF assms(3,4)] have fb: "0 \<le> fade b" "fade b \<le> 1" by simp_all
  have g00: "\<bar>grad h00 a b 0\<bar> \<le> a + b"
    using grad_plane[of h00 a b] assms by simp
  have g10: "\<bar>grad h10 (a - 1) b 0\<bar> \<le> (1 - a) + b"
    using grad_plane[of h10 "a - 1" b] assms by simp
  have g01: "\<bar>grad h01 a (b - 1) 0\<bar> \<le> a + (1 - b)"
    using grad_plane[of h01 a "b - 1"] assms by simp
  have g11: "\<bar>grad h11 (a - 1) (b - 1) 0\<bar> \<le> (1 - a) + (1 - b)"
    using grad_plane[of h11 "a - 1" "b - 1"] assms by simp
  have low: "\<bar>lerp (fade a) (grad h00 a b 0) (grad h10 (a - 1) b 0)\<bar>
               \<le> lerp (fade a) (a + b) ((1 - a) + b)"
    by (rule lerp_abs[OF fa g00 g10])
  have high: "\<bar>lerp (fade a) (grad h01 a (b - 1) 0) (grad h11 (a - 1) (b - 1) 0)\<bar>
               \<le> lerp (fade a) (a + (1 - b)) ((1 - a) + (1 - b))"
    by (rule lerp_abs[OF fa g01 g11])
  have "\<bar>lerp (fade b) (lerp (fade a) (grad h00 a b 0) (grad h10 (a - 1) b 0))
                      (lerp (fade a) (grad h01 a (b - 1) 0) (grad h11 (a - 1) (b - 1) 0))\<bar>
          \<le> lerp (fade b) (lerp (fade a) (a + b) ((1 - a) + b))
                            (lerp (fade a) (a + (1 - b)) ((1 - a) + (1 - b)))"
    by (rule lerp_abs[OF fb low high])
  also have "\<dots> = lerp (fade a) a (1 - a) + lerp (fade b) b (1 - b)"
    by (simp add: lerp_def algebra_simps)
  also have "\<dots> \<le> 1"
    using fade_blend[OF assms(1,2)] fade_blend[OF assms(3,4)] by simp
  finally show ?thesis .
qed

lemma lerp_0 [simp]: "lerp 0 A B = A"
  by (simp add: lerp_def)

lemma fade_0 [simp]: "fade 0 = 0"
  by (simp add: fade_def)

lemma noise2D_bounds: "0 \<le> noise2D e x y \<and> noise2D e x y \<le> 1"
proof -
  let ?a = "x - of_int \<lfloor>x\<rfloor>" and ?b = "y - of_int \<lfloor>y\<rfloor>"
  have a: "0 \<le> ?a" "?a \<le> 1" and b: "0 \<le> ?b" "?b \<le> 1" by linarith+
  obtain h00 h10 h01 h11 where v:
    "noise2D e x y =
       (lerp (fade ?b) (lerp (fade ?a) (grad h00 ?a ?b 0) (grad h10 (?a - 1) ?b 0))
                       (lerp (fade ?a) (grad h01 ?a (?b - 1) 0) (grad h11 (?a - 1) (?b - 1) 0))
        + 1) / 2"
    by (simp add: noise2D_def noise_def Let_def)
  from noise_plane_raw[OF a b, of h00 h10 h01 h11]
  have "- 1 \<le> lerp (fade ?b) (lerp (fade ?a) (grad h00 ?a ?b 0) (grad h10 (?a - 1) ?b 0))
                       (lerp (fade ?a) (grad h01 ?a (?b - 1) 0) (grad h11 (?a - 1) (?b - 1) 0))"
    and "lerp (fade ?b) (lerp (fade ?a) (grad h00 ?a ?b 0) (grad h10 (?a - 1) ?b 0))
                       (lerp (fade ?a) (grad h01 ?a (?b - 1) 0) (grad h11 (?a - 1) (?b - 1) 0)) \<le> 1"
    by (simp_all add: abs_le_iff)
  then show ?thesis unfolding v by simp
qed

text \<open>
  For every table and every point of the plane, \<^verbatim>\<open>noise2D(x, y)\<close>, that is
  \<^verbatim>\<open>noise(x, y, 0)\<close>, lies in [0,1].
\<close>

theorem noise2D_unit_interval:
  "0 \<le> noise2D e x y \<and> noise2D e x y \<le> 1 \<and> noise2D e x y = noise e x y 0"
  using noise2D_bounds[of e x y] by (simp add: noise2D_def)

section \<open>The table reads of the noise functions\<close>

lemma and_255_range: "0 \<le> (k::int) AND 255 \<and> k AND 255 \<le> 255"
  by (simp add: AND_upper2'')

lemma table_entry_range:
  assumes "length t = 512" and "set t \<subseteq> {0..255}" and "0 \<le> i" and "i < 512"
  shows "0 \<le> vec_at t i \<and> vec_at t i \<le> 255"
proof -
  from assms have "t ! nat i \<in> set t" by simp
  with assms(2) show ?thesis by (auto simp: vec_at_def)
qed

lemma noise_reads_bounds:
  assumes "length (p e) = 512" and "set (p e) \<subseteq> {0..255}"
  shows "\<forall>i \<in> set (noise_reads e x y z). 0 \<le> i \<and> i < 512"
proof -
  note r = table_entry_range[OF assms]
  let ?X = "\<lfloor>x\<rfloor> AND 255" and ?Y = "\<lfloor>y\<rfloor> AND 255" and ?Z = "\<lfloor>z\<rfloor> AND 255"
  let ?A = "vec_at (p e) ?X + ?Y" and ?B = "vec_at (p e) (?X + 1) + ?Y"
  note X = and_255_range[of "\<lfloor>x\<rfloor>"] and Y = and_255_range[of "\<lfloor>y\<rfloor>"]
    and Z = and_255_range[of "\<lfloor>z\<rfloor>"]
  have pX: "0 \<le> vec_at (p e) ?X \<and> vec_at (p e) ?X \<le> 255" using X by (intro r) simp_all
  have pX1: "0 \<le> vec_at (p e) (?X + 1) \<and> vec_at (p e) (?X + 1) \<le> 255"
    using X by (intro r) simp_all
  have A: "0 \<le> ?A" "?A \<le> 510" using pX Y by linarith+
  have B: "0 \<le> ?B" "?B \<le> 510" using pX1 Y by linarith+
  have pA: "0 \<le> vec_at (p e) ?A \<and> vec_at (p e) ?A \<le> 255" using A by (intro r) simp_all
  have pA1: "0 \<le> vec_at (p e) (?A + 1) \<and> vec_at (p e) (?A + 1) \<le> 255"
    using A by (intro r) simp_all
  have pB: "0 \<le> vec_at (p e) ?B \<and> vec_at (p e) ?B \<le> 255" using B by (intro r) simp_all
  have pB1: "0 \<le> vec_at (p e) (?B + 1) \<and> vec_at (p e) (?B + 1) \<le> 255"
    using B by (intro r) simp_all
  have "0 \<le> i \<and> i < 512" if "i \<in> set (noise_reads e x y z)" for i
  proof -
    from that have "i \<in> {?X, ?A, ?A + 1, ?X + 1, ?B, ?B + 1,
        vec_at (p e) ?A + ?Z, vec_at (p e) ?B + ?Z, vec_at (p e) (?A + 1) + ?Z,
        vec_at (p e) (?B + 1) + ?Z, vec_at (p e) ?A + ?Z + 1, vec_at (p e) ?B + ?Z + 1,
        vec_at (p e) (?A + 1) + ?Z + 1, vec_at (p e) (?B + 1) + ?Z + 1}"
      by (simp add: noise_reads_def Let_def)
    with X Y Z A B pA pA1 pB pB1 show ?thesis
      by (elim insertE emptyE; intro conjI; linarith)
  qed
  then show ?thesis by blast
qed

lemma constructed_tables:
  "length (p (PerlinNoise_new engine seed)) = 512 \<and>
   set (p (PerlinNoise_new engine seed)) \<subseteq> {0..255} \<and>
   length (perm (SimplexNoise_new engine seed)) = 512 \<and>
   set (perm (SimplexNoise_new engine seed)) \<subseteq> {0..255}"
proof -
  note b = base_table_permutation[of engine seed]
  have "set (perm (SimplexNoise_new engine seed)) \<subseteq> set (base_table engine seed)"
  proof
    fix v assume "v \<in> set (perm (SimplexNoise_new engine seed))"
    then obtain i where "v = base_table engine seed ! (i AND 255)"
      by (auto simp: SimplexNoise_new_def base_table_def Let_def)
    moreover have "int (i AND 255) = int i AND 255" by (simp add: of_nat_and_eq)
    with and_255_range[of "int i"] have "i AND 255 < 256" by linarith
    ultimately have "v = base_table engine seed ! (i AND 255)"
      and "i AND 255 < length (base_table engine seed)" using b by simp_all
    then show "v \<in> set (base_table engine seed)" by (simp only: nth_mem)
  qed
  with b show ?thesis
    by (simp add: PerlinNoise_new_def SimplexNoise_new_def base_table_def Let_def)
qed

lemma simplex_reads_bounds:
  assumes "length (perm e) = 512" and "set (perm e) \<subseteq> {0..255}"
  shows "list_all (\<lambda>i. 0 \<le> i \<and> i < 512) (simplex_reads e xin yin)"
proof -
  note r = table_entry_range[OF assms]
  define i where "i = fastfloor (xin + (xin + yin) * F2)"
  define j where "j = fastfloor (yin + (xin + yin) * F2)"
  define x0 where "x0 = xin - (of_int i - of_int (i + j) * G2)"
  define y0 where "y0 = yin - (of_int j - of_int (i + j) * G2)"
  define i1 :: int where "i1 = (if x0 > y0 then 1 else 0)"
  define j1 :: int where "j1 = (if x0 > y0 then 0 else 1)"
  define ii where "ii = i AND 255"
  define jj where "jj = j AND 255"
  have reads: "simplex_reads e xin yin =
      [jj, ii + vec_at (perm e) jj, jj + j1, ii + i1 + vec_at (perm e) (jj + j1),
       jj + 1, ii + 1 + vec_at (perm e) (jj + 1)]"
    by (simp add: simplex_reads_def Let_def i_def j_def x0_def y0_def i1_def j1_def ii_def jj_def)
  have ii: "0 \<le> ii" "ii \<le> 255" and jj: "0 \<le> jj" "jj \<le> 255"
    using and_255_range[of i] and_255_range[of j] by (simp_all add: ii_def jj_def)
  have o: "0 \<le> i1" "i1 \<le> 1" "0 \<le> j1" "j1 \<le> 1" by (simp_all add: i1_def j1_def)
  have a: "0 \<le> vec_at (perm e) jj \<and> vec_at (perm e) jj \<le> 255"
    using jj by (intro r) simp_all
  have b: "0 \<le> vec_at (perm e) (jj + j1) \<and> vec_at (perm e) (jj + j1) \<le> 255"
    using jj o by (intro r) linarith+
  have c: "0 \<le> vec_at (perm e) (jj + 1) \<and> vec_at (perm e) (jj + 1) \<le> 255"
    using jj by (intro r) simp_all
  have "0 \<le> k \<and> k < 512" if "k \<in> set (simplex_reads e xin yin)" for k
  proof -
    from that have "k \<in> {jj, ii + vec_at (perm e) jj, jj + j1,
        ii + i1 + vec_at (perm e) (jj + j1), jj + 1, ii + 1 + vec_at (perm e) (jj + 1)}"
      unfolding reads by simp
    with ii jj o a b c show ?thesis
      by (elim insertE emptyE; intro conjI; linarith)
  qed
  then show ?thesis by (simp add: list_all_iff)
qed

text \<open>
  The tables have 512 entries so that no read needs a modulo: on an engine built by
  its constructor every index at which \<^verbatim>\<open>noise\<close> and the Simplex \<^verbatim>\<open>noise2D\<close> read the
  table lies in 0..511.
\<close>

theorem table_reads_in_range:
  "list_all (\<lambda>i. 0 \<le> i \<and> i < 512) (noise_reads (PerlinNoise_new engine seed) x y z) \<and>
   list_all (\<lambda>i. 0 \<le> i \<and> i < 512) (simplex_reads (SimplexNoise_new engine seed) x y)"
  using constructed_tables[of engine seed]
    noise_reads_bounds[of "PerlinNoise_new engine seed" x y z]
    simplex_reads_bounds[of "SimplexNoise_new engine seed" x y]
  by (simp add: list_all_iff)

section \<open>The static engines\<close>

lemma iter_swap_same [simp]: "iter_swap i i xs = xs"
  by (simp add: iter_swap_def)














section \<open>Fractional Brownian motion\<close>

lemma octave_loop_stop:
  "\<not> i < octaves \<Longrightarrow>
   octave_loop sample x y octaves persistence lacunarity i tot frequency amplitude maxValue =
     (tot, maxValue)"
  by (simp add: octave_loop.simps)

lemma octave_loop_step:
  "i < octaves \<Longrightarrow>
   octave_loop sample x y octaves persistence lacunarity i tot frequency amplitude maxValue =
     octave_loop sample x y octaves persistence lacunarity (i + 1)
       (tot + sample (x * frequency) (y * frequency) * amplitude)
       (frequency * lacunarity) (amplitude * persistence) (maxValue + amplitude)"
  by (subst octave_loop.simps) simp

text \<open>
  Claim C6. With \<open>octaves \<le> 0\<close> the loop body never runs, \<^verbatim>\<open>total\<close> and
  \<^verbatim>\<open>maxValue\<close> are both still 0 at the division, and what is returned is the NaN of
  0/0: a value of the result type, not an error.
\<close>

theorem fbm_no_octaves:
  assumes "octaves \<le> 0"
  shows "octave_loop sample x y octaves persistence lacunarity 0 0 1 1 0 = (0, 0) \<and>
         generatePerlinFBM engine x y octaves persistence lacunarity seed = NaN \<and>
         generateSimplexFBM engine x y octaves persistence lacunarity seed = NaN"
proof -
  have stop: "octave_loop s x y octaves persistence lacunarity 0 0 1 1 0 = (0, 0)" for s
    using assms by (simp add: octave_loop_stop)
  show ?thesis
    by (simp add: stop generatePerlinFBM_def generateSimplexFBM_def fdiv_def)
qed

theorem fbm_no_octaves_witness:
  "(-3::int) \<le> 0 \<and>
   generatePerlinFBM identity_urbg (1 / 2) (1 / 3) (-3) (1 / 2) 2 0 = NaN \<and>
   generateSimplexFBM identity_urbg (1 / 2) (1 / 3) (-3) (1 / 2) 2 0 = NaN \<and>
   generatePerlinFBM identity_urbg (1 / 2) (1 / 3) 0 (1 / 2) 2 0 = NaN"
  using fbm_no_octaves[of "-3" _ "1 / 2" "1 / 3" "1 / 2" 2 identity_urbg 0]
        fbm_no_octaves[of 0 _ "1 / 2" "1 / 3" "1 / 2" 2 identity_urbg 0]
  by simp

text \<open>
  Claim C8. With one octave the loop runs once with frequency 1 and amplitude 1, and
  the result is the value of the single noise call.
\<close>

theorem fbm_single_octave:
  "generatePerlinFBM engine x y 1 persistence lacunarity seed =
     Quot (noise (PerlinNoise_new engine seed) x y 0) \<and>
   generateSimplexFBM engine x y 1 persistence lacunarity seed =
     Quot (simplex_noise2D (SimplexNoise_new engine seed) x y)"
proof -
  have once: "octave_loop s x y 1 persistence lacunarity 0 0 1 1 0 = (s x y, 1)" for s
    by (simp add: octave_loop_step octave_loop_stop)
  show ?thesis
    by (simp add: once generatePerlinFBM_def generateSimplexFBM_def fdiv_def noise2D_def)
qed

text \<open>
  The invariant of the octave loop for a persistence that is not negative: the
  amplitude stays non-negative, so \<open>0 \<le> total \<le> maxValue\<close> is kept as long as every
  sample lies in [0,1], and \<open>maxValue\<close> does not decrease.
\<close>

lemma octave_loop_bounds:
  assumes "0 \<le> persistence"
    and "0 \<le> amplitude"
    and "0 \<le> tot" and "tot \<le> maxValue"
    and "\<forall>k < nat (octaves - i).
           0 \<le> sample (x * (frequency * lacunarity ^ k)) (y * (frequency * lacunarity ^ k)) \<and>
           sample (x * (frequency * lacunarity ^ k)) (y * (frequency * lacunarity ^ k)) \<le> 1"
    and "octave_loop sample x y octaves persistence lacunarity i tot frequency amplitude maxValue
           = (t, m)"
  shows "0 \<le> t \<and> t \<le> m \<and> maxValue \<le> m \<and> (i < octaves \<longrightarrow> maxValue + amplitude \<le> m)"
  using assms
proof (induction sample x y octaves persistence lacunarity i tot frequency amplitude maxValue
    rule: octave_loop.induct)
  case (1 sample x y octaves persistence lacunarity i tot frequency amplitude maxValue)
  show ?case
  proof (cases "i < octaves")
    case False
    with "1.prems" show ?thesis by (simp add: octave_loop_stop)
  next
    case True
    let ?s = "sample (x * frequency) (y * frequency)"
    from True have pos: "0 < nat (octaves - i)" by simp
    with "1.prems"(5)
    have "0 \<le> sample (x * (frequency * lacunarity ^ 0)) (y * (frequency * lacunarity ^ 0)) \<and>
          sample (x * (frequency * lacunarity ^ 0)) (y * (frequency * lacunarity ^ 0)) \<le> 1"
      by blast
    then have s: "0 \<le> ?s" "?s \<le> 1" by simp_all
    have later: "\<forall>k < nat (octaves - (i + 1)).
           0 \<le> sample (x * (frequency * lacunarity * lacunarity ^ k))
                       (y * (frequency * lacunarity * lacunarity ^ k)) \<and>
           sample (x * (frequency * lacunarity * lacunarity ^ k))
                  (y * (frequency * lacunarity * lacunarity ^ k)) \<le> 1"
    proof (intro allI impI)
      fix k assume "k < nat (octaves - (i + 1))"
      then have "Suc k < nat (octaves - i)" by linarith
      with "1.prems"(5)
      have "0 \<le> sample (x * (frequency * lacunarity ^ Suc k))
                       (y * (frequency * lacunarity ^ Suc k)) \<and>
            sample (x * (frequency * lacunarity ^ Suc k))
                   (y * (frequency * lacunarity ^ Suc k)) \<le> 1"
        by blast
      then show "0 \<le> sample (x * (frequency * lacunarity * lacunarity ^ k))
                       (y * (frequency * lacunarity * lacunarity ^ k)) \<and>
           sample (x * (frequency * lacunarity * lacunarity ^ k))
                  (y * (frequency * lacunarity * lacunarity ^ k)) \<le> 1"
        by (simp add: mult.assoc)
    qed
    have a: "0 \<le> amplitude * persistence" using "1.prems"(1,2) by simp
    have t0: "0 \<le> tot + ?s * amplitude" using "1.prems"(2,3) s by simp
    have "?s * amplitude \<le> 1 * amplitude"
      using s(2) "1.prems"(2) by (rule mult_right_mono)
    then have t1: "tot + ?s * amplitude \<le> maxValue + amplitude" using "1.prems"(4) by simp
    from "1.prems"(6) True
    have run: "octave_loop sample x y octaves persistence lacunarity (i + 1)
                 (tot + ?s * amplitude) (frequency * lacunarity) (amplitude * persistence)
                 (maxValue + amplitude) = (t, m)"
      by (simp add: octave_loop_step)
    from "1.IH"[OF True "1.prems"(1) a t0 t1 later run] "1.prems"(2)
    show ?thesis by auto
  qed
qed


lemma fbm_result_bounds:
  assumes "0 \<le> persistence" and "1 \<le> octaves"
    and "\<forall>k < nat octaves. 0 \<le> sample (x * lacunarity ^ k) (y * lacunarity ^ k) \<and>
                              sample (x * lacunarity ^ k) (y * lacunarity ^ k) \<le> 1"
  shows "\<exists>t m. octave_loop sample x y octaves persistence lacunarity 0 0 1 1 0 = (t, m) \<and>
               fdiv t m = Quot (t / m) \<and> 0 \<le> t / m \<and> t / m \<le> 1"
proof -
  obtain t m where run: "octave_loop sample x y octaves persistence lacunarity 0 0 1 1 0 = (t, m)"
    by (cases "octave_loop sample x y octaves persistence lacunarity 0 0 1 1 0") blast
  have "\<forall>k < nat (octaves - 0). 0 \<le> sample (x * (1 * lacunarity ^ k)) (y * (1 * lacunarity ^ k)) \<and>
          sample (x * (1 * lacunarity ^ k)) (y * (1 * lacunarity ^ k)) \<le> 1"
    using assms(3) by simp
  from octave_loop_bounds[OF assms(1) _ _ _ this run] assms(2)
  have b: "0 \<le> t" "t \<le> m" "1 \<le> m" by simp_all
  then have "fdiv t m = Quot (t / m)" by (simp add: fdiv_def)
  moreover from b have "0 \<le> t / m" "t / m \<le> 1" by simp_all
  ultimately show ?thesis using run by blast
qed

lemma grad_origin [simp]: "grad h 0 0 0 = 0"
  by (simp add: grad_def Let_def)

lemma noise_origin: "noise e 0 0 0 = 1 / 2"
  by (simp add: noise_def Let_def lerp_def fade_def)

lemma G2_squares: "G2 * G2 + (G2 - 1) * (G2 - 1) = 2 / 3" "(2 * G2 - 1) * (2 * G2 - 1) = 1 / 3"
proof -
  have r: "sqrt 3 * sqrt 3 = 3" by simp
  have g: "G2 = 1 / 2 - sqrt 3 / 6" by (simp add: G2_def diff_divide_distrib)
  have "G2 * G2 + (G2 - 1) * (G2 - 1) = 1 / 2 + (sqrt 3 * sqrt 3) / 18"
    unfolding g by (simp add: algebra_simps)
  then show "G2 * G2 + (G2 - 1) * (G2 - 1) = 2 / 3" unfolding r by simp
  have "(2 * G2 - 1) * (2 * G2 - 1) = (sqrt 3 * sqrt 3) / 9"
    unfolding g by (simp add: algebra_simps)
  then show "(2 * G2 - 1) * (2 * G2 - 1) = 1 / 3" unfolding r by simp
qed

lemma fastfloor_0 [simp]: "fastfloor 0 = 0"
  by (simp add: fastfloor_def int_cast_def)

lemma simplex_origin: "simplex_noise2D e 0 0 = 1 / 2"
proof -
  have t1: "1 / 2 - G2 * G2 - (G2 - 1) * (G2 - 1) < 0"
    using G2_squares(1) by simp
  have t2: "1 / 2 - (2 * G2 - 1) * (2 * G2 - 1) - (2 * G2 - 1) * (2 * G2 - 1) < 0"
    using G2_squares(2) by simp
  show ?thesis
    using t1 t2 by (simp add: simplex_noise2D_def Let_def dot_def)
qed


lemma noise2D_origin: "noise2D e 0 0 = 1 / 2"
  by (simp add: noise2D_def noise_origin)

text \<open>
  Claim C7 as stated fails. A persistence below 1 may be negative, and then the
  amplitudes do not all have one sign. With persistence -1 and two octaves at the
  origin both noise calls return 1/2, the amplitudes are 1 and -1, \<^verbatim>\<open>total\<close> and
  \<^verbatim>\<open>maxValue\<close> are both 0, and the result is NaN.
\<close>

theorem fbm_negative_persistence:
  "(-1::real) < 1 \<and> (1::real) < 2 \<and> (1::int) \<le> 2 \<and>
   0 \<le> noise2D (PerlinNoise_new identity_urbg 0) (0 * 2 ^ 0) (0 * 2 ^ 0) \<and>
   noise2D (PerlinNoise_new identity_urbg 0) (0 * 2 ^ 0) (0 * 2 ^ 0) \<le> 1 \<and>
   0 \<le> noise2D (PerlinNoise_new identity_urbg 0) (0 * 2 ^ 1) (0 * 2 ^ 1) \<and>
   noise2D (PerlinNoise_new identity_urbg 0) (0 * 2 ^ 1) (0 * 2 ^ 1) \<le> 1 \<and>
   generatePerlinFBM identity_urbg 0 0 2 (-1) 2 0 = NaN"
proof -
  have "octave_loop (noise2D e) 0 0 2 (-1) 2 0 0 1 1 0 = (0, 0)" for e
    by (simp add: octave_loop_step octave_loop_stop noise2D_origin)
  then show ?thesis
    by (simp add: generatePerlinFBM_def fdiv_def noise2D_origin)
qed

text \<open>
  Claim C7, amended: for a persistence in [0,1), a lacunarity above 1 and at least one
  octave, if every noise call of the loop returns a value in [0,1] then the result of
  \<^verbatim>\<open>generatePerlinFBM\<close>, and of \<^verbatim>\<open>generateSimplexFBM\<close>, is a number in [0,1].
\<close>

theorem fbm_in_unit_interval:
  assumes "0 \<le> persistence" and "persistence < 1" and "1 < lacunarity" and "1 \<le> octaves"
  shows "((\<forall>k < nat octaves.
             0 \<le> noise2D (PerlinNoise_new engine seed) (x * lacunarity ^ k) (y * lacunarity ^ k) \<and>
             noise2D (PerlinNoise_new engine seed) (x * lacunarity ^ k) (y * lacunarity ^ k) \<le> 1)
          \<longrightarrow> (\<exists>v. generatePerlinFBM engine x y octaves persistence lacunarity seed = Quot v \<and>
                    0 \<le> v \<and> v \<le> 1)) \<and>
         ((\<forall>k < nat octaves.
             0 \<le> simplex_noise2D (SimplexNoise_new engine seed) (x * lacunarity ^ k) (y * lacunarity ^ k) \<and>
             simplex_noise2D (SimplexNoise_new engine seed) (x * lacunarity ^ k) (y * lacunarity ^ k) \<le> 1)
          \<longrightarrow> (\<exists>v. generateSimplexFBM engine x y octaves persistence lacunarity seed = Quot v \<and>
                    0 \<le> v \<and> v \<le> 1))"
proof (intro conjI impI)
  assume "\<forall>k < nat octaves.
             0 \<le> noise2D (PerlinNoise_new engine seed) (x * lacunarity ^ k) (y * lacunarity ^ k) \<and>
             noise2D (PerlinNoise_new engine seed) (x * lacunarity ^ k) (y * lacunarity ^ k) \<le> 1"
  from fbm_result_bounds[where sample = "noise2D (PerlinNoise_new engine seed)" and x = x
      and y = y and lacunarity = lacunarity, OF assms(1) assms(4) this]
  show "\<exists>v. generatePerlinFBM engine x y octaves persistence lacunarity seed = Quot v \<and>
            0 \<le> v \<and> v \<le> 1"
    by (auto simp: generatePerlinFBM_def Let_def)
next
  assume "\<forall>k < nat octaves.
             0 \<le> simplex_noise2D (SimplexNoise_new engine seed) (x * lacunarity ^ k) (y * lacunarity ^ k) \<and>
             simplex_noise2D (SimplexNoise_new engine seed) (x * lacunarity ^ k) (y * lacunarity ^ k) \<le> 1"
  from fbm_result_bounds[where sample = "simplex_noise2D (SimplexNoise_new engine seed)"
      and x = x and y = y and lacunarity = lacunarity, OF assms(1) assms(4) this]
  show "\<exists>v. generateSimplexFBM engine x y octaves persistence lacunarity seed = Quot v \<and>
            0 \<le> v \<and> v \<le> 1"
    by (auto simp: generateSimplexFBM_def Let_def)
qed

theorem fbm_in_unit_interval_witness:
  "(0::real) \<le> 1 / 2 \<and> (1 / 2::real) < 1 \<and> (1::real) < 2 \<and> (1::int) \<le> 3 \<and>
   noise2D (PerlinNoise_new identity_urbg 0) (0 * 2 ^ 2) (0 * 2 ^ 2) = 1 / 2 \<and>
   simplex_noise2D (SimplexNoise_new identity_urbg 0) (0 * 2 ^ 2) (0 * 2 ^ 2) = 1 / 2 \<and>
   (\<exists>v. generatePerlinFBM identity_urbg 0 0 3 (1 / 2) 2 0 = Quot v \<and> 0 \<le> v \<and> v \<le> 1) \<and>
   (\<exists>v. generateSimplexFBM identity_urbg 0 0 3 (1 / 2) 2 0 = Quot v \<and> 0 \<le> v \<and> v \<le> 1)"
  using fbm_in_unit_interval[of "1 / 2" 2 3 identity_urbg 0 0 0]
  by (simp add: noise2D_origin simplex_origin)

text \<open>
  With the bound in the plane the hypothesis on the noise calls is always met for the
  Perlin engine: for a persistence that is not negative and at least one octave,
  \<^verbatim>\<open>generatePerlinFBM\<close> returns a number in [0,1].
\<close>

theorem perlin_fbm_unit_interval:
  assumes "0 \<le> persistence" and "1 \<le> octaves"
  shows "\<exists>v. generatePerlinFBM engine x y octaves persistence lacunarity seed = Quot v \<and>
             0 \<le> v \<and> v \<le> 1"
proof -
  have "\<forall>k < nat octaves.
          0 \<le> noise2D (PerlinNoise_new engine seed) (x * lacunarity ^ k) (y * lacunarity ^ k) \<and>
          noise2D (PerlinNoise_new engine seed) (x * lacunarity ^ k) (y * lacunarity ^ k) \<le> 1"
    by (simp add: noise2D_bounds)
  from fbm_result_bounds[where sample = "noise2D (PerlinNoise_new engine seed)" and x = x
      and y = y and lacunarity = lacunarity, OF assms this]
  show ?thesis by (auto simp: generatePerlinFBM_def Let_def)
qed

theorem perlin_fbm_unit_interval_witness:
  "(0::real) \<le> 1 / 2 \<and> (1::int) \<le> 6 \<and>
   (\<exists>v. generatePerlinFBM identity_urbg (3 / 10) (7 / 10) 6 (1 / 2) 2 0 = Quot v \<and>
        0 \<le> v \<and> v \<le> 1)"
  using perlin_fbm_unit_interval[of "1 / 2" 6 identity_urbg "3 / 10" "7 / 10" 2 0]
  by simp

section \<open>Diamond-square: the grid invariant\<close>

lemma dist_rng_simps [simp]:
  "fst (dist_rng st) = shd (rng st)"
  "heightmap (snd (dist_rng st)) = heightmap st"
  "size' (snd (dist_rng st)) = size' st"
  "rng (snd (dist_rng st)) = stl (rng st)"
  by (simp_all add: dist_rng_def)

lemma grid_ok_dist_rng [simp]: "grid_ok (snd (dist_rng st)) = grid_ok st"
  by (simp add: grid_ok_def)

lemma grid_ok_update:
  assumes "grid_ok st"
  shows "grid_ok (st\<lparr>heightmap := (heightmap st)[i := (heightmap st ! i)[j := v]]\<rparr>)"
proof (cases "i < length (heightmap st)")
  case True
  then have "heightmap st ! i \<in> set (heightmap st)" by simp
  with assms have len: "length ((heightmap st ! i)[j := v]) = nat (size' st)"
    by (simp add: grid_ok_def list_all_iff)
  have "set ((heightmap st)[i := (heightmap st ! i)[j := v]])
          \<subseteq> insert ((heightmap st ! i)[j := v]) (set (heightmap st))"
    by (rule set_update_subset_insert)
  with len assms show ?thesis
    by (auto simp: grid_ok_def list_all_iff)
next
  case False
  then have "(heightmap st)[i := (heightmap st ! i)[j := v]] = heightmap st"
    by (simp add: list_update_beyond)
  with assms show ?thesis by (simp add: grid_ok_def)
qed

lemma setHeight_size [simp]: "size' (setHeight st x y v) = size' st"
  by (simp add: setHeight_def)

lemma setHeight_rng [simp]: "rng (setHeight st x y v) = rng st"
  by (simp add: setHeight_def)

lemma grid_ok_setHeight: "grid_ok st \<Longrightarrow> grid_ok (setHeight st x y v)"
  by (simp add: setHeight_def grid_ok_update)

lemma diamondStep_size [simp]: "size' (diamondStep st x y s r) = size' st"
  by (simp add: diamondStep_def Let_def case_prod_beta)

lemma grid_ok_diamondStep: "grid_ok st \<Longrightarrow> grid_ok (diamondStep st x y s r)"
  by (simp add: diamondStep_def Let_def case_prod_beta grid_ok_setHeight)

lemma store_ok:
  assumes "grid_ok st" and "0 \<le> x" and "x < size' st" and "0 \<le> y" and "y < size' st"
  shows "\<exists>st'. store st x y v = Inr st' \<and> grid_ok st' \<and> size' st' = size' st \<and> rng st' = rng st"
proof -
  from assms have x: "nat x < length (heightmap st)" by (simp add: grid_ok_def)
  then have "heightmap st ! nat x \<in> set (heightmap st)" by simp
  with assms have "nat y < length (heightmap st ! nat x)" by (simp add: grid_ok_def list_all_iff)
  with x assms show ?thesis
    by (simp add: store_def grid_ok_update)
qed

text \<open>
  The count of \<^verbatim>\<open>squareStep\<close>: four with wrapping, and otherwise at least one as soon
  as twice the step fits into the grid, since then \<open>x + stepSize < size\<close> or
  \<open>x - stepSize \<ge> 0\<close>.
\<close>

lemma squareStep_count_wrap: "snd (squareStep_neighbours st x y s True) = 4"
  by (simp add: squareStep_neighbours_def)

lemma squareStep_count_pos:
  "2 * s \<le> size' st \<Longrightarrow> 1 \<le> snd (squareStep_neighbours st x y s wrap)"
  by (simp add: squareStep_neighbours_def)

lemma squareStep_count_le: "snd (squareStep_neighbours st x y s wrap) \<le> 4"
  by (simp add: squareStep_neighbours_def)

lemma squareStep_ok:
  assumes "grid_ok st" and "2 * s \<le> size' st"
  shows "\<exists>st'. squareStep st x y s r wrap = Inr st' \<and> grid_ok st' \<and> size' st' = size' st"
proof -
  from assms(2) have "1 \<le> snd (squareStep_neighbours st x y s wrap)"
    by (rule squareStep_count_pos)
  then have "(of_int (snd (squareStep_neighbours st x y s wrap)) :: real) \<noteq> 0" by simp
  with assms(1) show ?thesis
    by (simp add: squareStep_def fdiv_def case_prod_beta Let_def grid_ok_setHeight)
qed

lemma squareStep_NaN_iff:
  "squareStep st x y s r wrap = Inl e \<longleftrightarrow>
     e = NotANumber \<and> snd (squareStep_neighbours st x y s wrap) = 0"
  by (auto simp: squareStep_def fdiv_def case_prod_beta Let_def squareStep_neighbours_def)

section \<open>Diamond-square: the loops return\<close>

lemma diamond_x_ok:
  assumes "0 < stepSize" and "grid_ok st" and "size' st = n"
  shows "\<exists>st'. diamond_x n st x y stepSize halfStep randomRange = Inr st' \<and>
               grid_ok st' \<and> size' st' = n"
  using assms
proof (induction n st x y stepSize halfStep randomRange rule: diamond_x.induct)
  case (1 n st x y stepSize halfStep randomRange)
  show ?case
  proof (cases "x < n")
    case False
    with "1.prems" show ?thesis by (simp add: diamond_x.simps)
  next
    case True
    let ?st = "diamondStep st x y halfStep randomRange"
    from "1.prems" have "\<not> stepSize \<le> 0" "grid_ok ?st" "size' ?st = n"
      by (simp_all add: grid_ok_diamondStep)
    from "1.IH"[OF True this(1) "1.prems"(1) this(2,3)] True "1.prems"(1)
    show ?thesis by (subst diamond_x.simps) simp
  qed
qed

lemma diamond_y_ok:
  assumes "0 < stepSize" and "grid_ok st" and "size' st = n"
  shows "\<exists>st'. diamond_y n st y stepSize halfStep randomRange = Inr st' \<and>
               grid_ok st' \<and> size' st' = n"
  using assms
proof (induction n st y stepSize halfStep randomRange rule: diamond_y.induct)
  case (1 n st y stepSize halfStep randomRange)
  show ?case
  proof (cases "y < n")
    case False
    with "1.prems" show ?thesis by (simp add: diamond_y.simps)
  next
    case True
    from diamond_x_ok[OF "1.prems", of halfStep y halfStep randomRange]
    obtain st1 where row: "diamond_x n st halfStep y stepSize halfStep randomRange = Inr st1"
      and ok1: "grid_ok st1" "size' st1 = n" by blast
    from "1.prems"(1) have "\<not> stepSize \<le> 0" by simp
    from "1.IH"[OF True this row "1.prems"(1) ok1] True "1.prems"(1) row
    show ?thesis by (subst diamond_y.simps) simp
  qed
qed

lemma square_x_ok:
  assumes "0 < stepSize" and "2 * halfStep \<le> n" and "grid_ok st" and "size' st = n"
  shows "\<exists>st'. square_x n st x y stepSize halfStep randomRange wrap = Inr st' \<and>
               grid_ok st' \<and> size' st' = n"
  using assms
proof (induction n st x y stepSize halfStep randomRange wrap rule: square_x.induct)
  case (1 n st x y stepSize halfStep randomRange wrap)
  show ?case
  proof (cases "x < n")
    case False
    with "1.prems" show ?thesis by (simp add: square_x.simps)
  next
    case True
    from "1.prems" have "2 * halfStep \<le> size' st" by simp
    from squareStep_ok[OF "1.prems"(3) this, of x y randomRange wrap] "1.prems"(4)
    obtain st1 where cell: "squareStep st x y halfStep randomRange wrap = Inr st1"
      and ok1: "grid_ok st1" "size' st1 = n" by auto
    from "1.prems"(1) have "\<not> stepSize \<le> 0" by simp
    from "1.IH"[OF True this cell "1.prems"(1,2) ok1] True "1.prems"(1) cell
    show ?thesis by (subst square_x.simps) simp
  qed
qed

lemma square_y_ok:
  assumes "0 < stepSize" and "0 < halfStep" and "2 * halfStep \<le> n"
    and "grid_ok st" and "size' st = n"
  shows "\<exists>st'. square_y n st y stepSize halfStep randomRange wrap = Inr st' \<and>
               grid_ok st' \<and> size' st' = n"
  using assms
proof (induction n st y stepSize halfStep randomRange wrap rule: square_y.induct)
  case (1 n st y stepSize halfStep randomRange wrap)
  show ?case
  proof (cases "y < n")
    case False
    with "1.prems" show ?thesis by (simp add: square_y.simps)
  next
    case True
    from square_x_ok[OF "1.prems"(1,3,4,5), of "(y + halfStep) smod stepSize" y randomRange wrap]
    obtain st1 where row: "square_x n st ((y + halfStep) smod stepSize) y stepSize halfStep
                              randomRange wrap = Inr st1"
      and ok1: "grid_ok st1" "size' st1 = n" by blast
    from "1.prems"(2) have "\<not> halfStep \<le> 0" by simp
    from "1.IH"[OF True this row "1.prems"(1,2,3) ok1] True "1.prems"(2) row
    show ?thesis by (subst square_y.simps) simp
  qed
qed

lemma sdiv_2_nonneg: "0 \<le> k \<Longrightarrow> k sdiv 2 = k div (2::int)"
  by (simp add: signed_divide_int_def sgn_if)

lemma step_loop_ok:
  assumes "stepSize < n" and "grid_ok st" and "size' st = n"
  shows "\<exists>st'. step_loop n st stepSize randomRange roughness wrap = Inr st' \<and>
               grid_ok st' \<and> size' st' = n"
  using assms
proof (induction n st stepSize randomRange roughness wrap rule: step_loop.induct)
  case (1 n st stepSize randomRange roughness wrap)
  show ?case
  proof (cases "stepSize > 1")
    case False
    with "1.prems" show ?thesis by (simp add: step_loop.simps)
  next
    case True
    let ?h = "stepSize sdiv 2"
    from True have h: "?h = stepSize div 2" by (simp add: sdiv_2_nonneg)
    with True have hpos: "0 < ?h" and h2: "2 * ?h \<le> stepSize" by simp_all
    from True have spos: "0 < stepSize" by simp
    from h2 "1.prems"(1) have fit: "2 * ?h \<le> n" by simp
    from diamond_y_ok[OF spos "1.prems"(2,3), of ?h ?h randomRange]
    obtain st1 where d: "diamond_y n st ?h stepSize ?h randomRange = Inr st1"
      and ok1: "grid_ok st1" "size' st1 = n" by blast
    from square_y_ok[OF spos hpos fit ok1, of 0 randomRange wrap]
    obtain st2 where s: "square_y n st1 0 stepSize ?h randomRange wrap = Inr st2"
      and ok2: "grid_ok st2" "size' st2 = n" by blast
    from h2 hpos "1.prems"(1) have "?h < n" by simp
    from "1.IH"[OF True refl d s this ok2] True d s
    show ?thesis by (subst step_loop.simps) (simp add: Let_def)
  qed
qed

lemma DiamondSquare_new_ok:
  assumes "0 \<le> sz"
  shows "DiamondSquare_new twister sz seed =
           Inr \<lparr> heightmap = replicate (nat sz) (replicate (nat sz) 0), size' = sz,
                 rng = twister seed \<rparr> \<and>
         grid_ok \<lparr> heightmap = replicate (nat sz) (replicate (nat sz) 0), size' = sz,
                   rng = twister seed \<rparr>"
  using assms by (simp add: DiamondSquare_new_def grid_ok_def list_all_iff)

lemma init_corners_ok:
  assumes "grid_ok st" and "1 \<le> size' st"
  shows "\<exists>st'. init_corners st = Inr st' \<and> grid_ok st' \<and> size' st' = size' st"
proof -
  let ?n = "size' st"
  let ?s0 = "snd (dist_rng st)"
  from assms have g0: "grid_ok ?s0" "size' ?s0 = ?n" by simp_all
  from store_ok[OF g0(1), of 0 0 "fst (dist_rng st)"] assms(2) g0(2)
  obtain s1 where c1: "store ?s0 0 0 (fst (dist_rng st)) = Inr s1"
    and g1: "grid_ok s1" "size' s1 = ?n" by auto
  let ?s1 = "snd (dist_rng s1)"
  from g1 have g1': "grid_ok ?s1" "size' ?s1 = ?n" by simp_all
  from store_ok[OF g1'(1), of "?n - 1" 0 "fst (dist_rng s1)"] assms(2) g1'(2)
  obtain s2 where c2: "store ?s1 (?n - 1) 0 (fst (dist_rng s1)) = Inr s2"
    and g2: "grid_ok s2" "size' s2 = ?n" by auto
  let ?s2 = "snd (dist_rng s2)"
  from g2 have g2': "grid_ok ?s2" "size' ?s2 = ?n" by simp_all
  from store_ok[OF g2'(1), of 0 "?n - 1" "fst (dist_rng s2)"] assms(2) g2'(2)
  obtain s3 where c3: "store ?s2 0 (?n - 1) (fst (dist_rng s2)) = Inr s3"
    and g3: "grid_ok s3" "size' s3 = ?n" by auto
  let ?s3 = "snd (dist_rng s3)"
  from g3 have g3': "grid_ok ?s3" "size' ?s3 = ?n" by simp_all
  from store_ok[OF g3'(1), of "?n - 1" "?n - 1" "fst (dist_rng s3)"] assms(2) g3'(2)
  obtain s4 where c4: "store ?s3 (?n - 1) (?n - 1) (fst (dist_rng s3)) = Inr s4"
    and g4: "grid_ok s4" "size' s4 = ?n" by auto
  have "init_corners st = Inr s4"
    using c1 c2 c3 c4 g1(2) g2(2) g3(2)
    by (simp add: init_corners_def case_prod_beta Let_def)
  with g4 show ?thesis by simp
qed

lemma generate_rounds_ok:
  assumes "grid_ok st" and "1 \<le> size' st"
  shows "\<exists>st'. generate_rounds st roughness wrap = Inr st' \<and> grid_ok st' \<and>
               size' st' = size' st"
proof -
  from init_corners_ok[OF assms]
  obtain s1 where c: "init_corners st = Inr s1" and g: "grid_ok s1" "size' s1 = size' st"
    by blast
  have "size' st - 1 < size' st" by simp
  from step_loop_ok[OF this g, of 1 roughness wrap] c g(2)
  show ?thesis by (simp add: generate_rounds_def)
qed

text \<open>
  The two loops that rescale the grid in place visit every cell once, so on a grid of
  \<open>size'\<close> columns of \<open>size'\<close> cells they are a map over the cells.
\<close>

lemma fold_heightmap:
  "fold (\<lambda>x st. st\<lparr>heightmap := H x (heightmap st)\<rparr>) xs st =
     st\<lparr>heightmap := fold H xs (heightmap st)\<rparr>"
  by (induction xs arbitrary: st) simp_all

lemma fold_cell_update:
  assumes "distinct ys"
  shows "length (fold (\<lambda>y row. row[y := f (row ! y)]) ys row) = length row \<and>
         (\<forall>j<length row. fold (\<lambda>y row. row[y := f (row ! y)]) ys row ! j =
                            (if j \<in> set ys then f (row ! j) else row ! j))"
  using assms
proof (induction ys arbitrary: row)
  case Nil
  then show ?case by simp
next
  case (Cons y ys)
  from Cons.prems have d: "distinct ys" and y: "y \<notin> set ys" by simp_all
  let ?row = "row[y := f (row ! y)]"
  from Cons.IH[OF d, of ?row]
  have len: "length (fold (\<lambda>y row. row[y := f (row ! y)]) ys ?row) = length row"
    and nth: "\<And>j. j < length row \<Longrightarrow> fold (\<lambda>y row. row[y := f (row ! y)]) ys ?row ! j =
                            (if j \<in> set ys then f (?row ! j) else ?row ! j)"
    by simp_all
  have "fold (\<lambda>y row. row[y := f (row ! y)]) (y # ys) row ! j =
          (if j \<in> set (y # ys) then f (row ! j) else row ! j)" if j: "j < length row" for j
  proof (cases "j \<in> set ys")
    case True
    with y have "j \<noteq> y" by blast
    with True nth[OF j] show ?thesis by simp
  next
    case False
    with nth[OF j] j show ?thesis by (simp add: nth_list_update)
  qed
  with len show ?case by simp
qed

lemma fold_cell_update_all:
  "fold (\<lambda>y row. row[y := f (row ! y)]) [0..<length row] row = map f row"
  using fold_cell_update[of "[0..<length row]" f row]
  by (intro nth_equalityI) simp_all

lemma fold_row_update:
  assumes "distinct xs"
  shows "length (fold (\<lambda>x g. g[x := (g ! x)[y := f (g ! x ! y)]]) xs g) = length g \<and>
         (\<forall>i<length g. fold (\<lambda>x g. g[x := (g ! x)[y := f (g ! x ! y)]]) xs g ! i =
                          (if i \<in> set xs then (g ! i)[y := f (g ! i ! y)] else g ! i))"
  using assms
proof (induction xs arbitrary: g)
  case Nil
  then show ?case by simp
next
  case (Cons x xs)
  from Cons.prems have d: "distinct xs" and x: "x \<notin> set xs" by simp_all
  let ?g = "g[x := (g ! x)[y := f (g ! x ! y)]]"
  from Cons.IH[OF d, of ?g]
  have len: "length (fold (\<lambda>x g. g[x := (g ! x)[y := f (g ! x ! y)]]) xs ?g) = length g"
    and nth: "\<And>i. i < length g \<Longrightarrow>
                fold (\<lambda>x g. g[x := (g ! x)[y := f (g ! x ! y)]]) xs ?g ! i =
                  (if i \<in> set xs then (?g ! i)[y := f (?g ! i ! y)] else ?g ! i)"
    by simp_all
  have "fold (\<lambda>x g. g[x := (g ! x)[y := f (g ! x ! y)]]) (x # xs) g ! i =
          (if i \<in> set (x # xs) then (g ! i)[y := f (g ! i ! y)] else g ! i)"
    if i: "i < length g" for i
  proof (cases "i \<in> set xs")
    case True
    with x have "i \<noteq> x" by blast
    with True nth[OF i] show ?thesis by simp
  next
    case False
    with nth[OF i] i show ?thesis by (simp add: nth_list_update)
  qed
  with len show ?case by simp
qed

lemma fold_row_update_all:
  "fold (\<lambda>x g. g[x := (g ! x)[y := f (g ! x ! y)]]) [0..<length g] g =
     map (\<lambda>row. row[y := f (row ! y)]) g"
  using fold_row_update[of "[0..<length g]" y f g]
  by (intro nth_equalityI) simp_all

lemma fold_grid_update:
  "length g = n \<Longrightarrow>
   fold (\<lambda>y. fold (\<lambda>x g. g[x := (g ! x)[y := f (g ! x ! y)]]) [0..<n]) ys g =
     map (fold (\<lambda>y row. row[y := f (row ! y)]) ys) g"
proof (induction ys arbitrary: g)
  case Nil
  then show ?case by simp
next
  case (Cons y ys)
  from Cons.prems
  have step: "fold (\<lambda>x g. g[x := (g ! x)[y := f (g ! x ! y)]]) [0..<n] g =
                map (\<lambda>row. row[y := f (row ! y)]) g"
    using fold_row_update_all[of y f g] by simp
  have "length (map (\<lambda>row. row[y := f (row ! y)]) g) = n" using Cons.prems by simp
  from Cons.IH[OF this] show ?case by (simp add: step o_def)
qed

lemma fold_grid_update_all:
  assumes "length g = n" and "list_all (\<lambda>col. length col = n) g"
  shows "fold (\<lambda>y. fold (\<lambda>x g. g[x := (g ! x)[y := f (g ! x ! y)]]) [0..<n]) [0..<n] g =
           map (map f) g"
proof -
  have "map (fold (\<lambda>y row. row[y := f (row ! y)]) [0..<n]) g = map (map f) g"
  proof (rule map_cong[OF refl])
    fix row assume "row \<in> set g"
    with assms(2) have "length row = n" by (simp add: list_all_iff)
    then show "fold (\<lambda>y row. row[y := f (row ! y)]) [0..<n] row = map f row"
      using fold_cell_update_all[of f row] by simp
  qed
  with fold_grid_update[OF assms(1), of f "[0..<n]"] show ?thesis by simp
qed

lemma normalize_ds_eq:
  assumes "grid_ok st" and "1 \<le> size' st"
  shows "normalize_ds st =
           (let (minVal, maxVal) = minmax_scan st;
                range' = maxVal - minVal
            in if range' > flat_epsilon
               then Inr (st\<lparr>heightmap := map (map (\<lambda>h. (h - minVal) / range')) (heightmap st)\<rparr>)
               else Inr st)"
proof -
  let ?n = "nat (size' st)"
  from assms have len: "length (heightmap st) = ?n" "0 < length (heightmap st)"
    and cols: "list_all (\<lambda>col. length col = ?n) (heightmap st)"
    by (simp_all add: grid_ok_def)
  from len(2) have "heightmap st ! 0 \<in> set (heightmap st)" by simp
  with cols have "length (heightmap st ! 0) = ?n" by (simp add: list_all_iff)
  with assms(2) len(2) have ne: "heightmap st \<noteq> []" "heightmap st ! 0 \<noteq> []" by auto
  have loops: "fold (\<lambda>y. fold (\<lambda>x st. st\<lparr>heightmap := (heightmap st)
                   [x := (heightmap st ! x)[y := f (heightmap st ! x ! y)]]\<rparr>) [0..<?n])
                 [0..<?n] st = st\<lparr>heightmap := map (map f) (heightmap st)\<rparr>" for f
  proof -
    have inner: "fold (\<lambda>x st. st\<lparr>heightmap := (heightmap st)
                   [x := (heightmap st ! x)[y := f (heightmap st ! x ! y)]]\<rparr>) [0..<?n] =
                 (\<lambda>st. st\<lparr>heightmap := fold (\<lambda>x g. g[x := (g ! x)[y := f (g ! x ! y)]])
                                                [0..<?n] (heightmap st)\<rparr>)" for y
      by (rule ext)
         (rule fold_heightmap[where H = "\<lambda>x g. g[x := (g ! x)[y := f (g ! x ! y)]]"])
    show ?thesis
      unfolding inner
      by (simp add: fold_heightmap[where
            H = "\<lambda>y. fold (\<lambda>x g. g[x := (g ! x)[y := f (g ! x ! y)]]) [0..<?n]"]
          fold_grid_update_all[OF len(1) cols])
  qed
  show ?thesis
    using ne
      loops[of "\<lambda>h. (h - fst (minmax_scan st)) / (snd (minmax_scan st) - fst (minmax_scan st))"]
    by (simp add: normalize_ds_def Let_def case_prod_beta)
qed

lemma normalize_ds_ok:
  assumes "grid_ok st" and "1 \<le> size' st"
  shows "\<exists>st'. normalize_ds st = Inr st' \<and> grid_ok st' \<and> size' st' = size' st"
proof -
  from assms have len: "0 < length (heightmap st)" by (simp add: grid_ok_def)
  then have "heightmap st ! 0 \<in> set (heightmap st)" by simp
  with assms have "length (heightmap st ! 0) = nat (size' st)"
    by (simp add: grid_ok_def list_all_iff)
  with assms(2) len have ne: "heightmap st \<noteq> []" "heightmap st ! 0 \<noteq> []" by auto
  show ?thesis
    using ne assms(1)
    by (auto simp: normalize_ds_eq[OF assms] Let_def case_prod_beta grid_ok_def list_all_iff)
qed

lemma generate_ok:
  assumes "grid_ok st" and "1 \<le> size' st"
  shows "\<exists>st'. generate st roughness wrap = Inr st' \<and> grid_ok st' \<and> size' st' = size' st"
proof -
  from generate_rounds_ok[OF assms]
  obtain s1 where r: "generate_rounds st roughness wrap = Inr s1"
    and g: "grid_ok s1" "size' s1 = size' st" by blast
  from normalize_ds_ok[OF g(1)] assms(2) g(2) r
  show ?thesis by (simp add: generate_def)
qed

lemma generateDiamondSquareNoise_ok:
  assumes "1 \<le> sz"
  shows "\<exists>g. generateDiamondSquareNoise twister sz roughness seed wrap = Inr g \<and>
             length g = nat sz \<and> list_all (\<lambda>col. length col = nat sz) g"
proof -
  let ?ds = "\<lparr> heightmap = replicate (nat sz) (replicate (nat sz) 0), size' = sz,
               rng = twister seed \<rparr>"
  from assms DiamondSquare_new_ok[of sz twister seed]
  have new: "DiamondSquare_new twister sz seed = Inr ?ds" and g: "grid_ok ?ds" by simp_all
  from generate_ok[OF g, of roughness wrap] assms
  obtain st where "generate ?ds roughness wrap = Inr st" "grid_ok st" "size' st = sz" by auto
  with new show ?thesis
    by (simp add: generateDiamondSquareNoise_def grid_ok_def)
qed

section \<open>Valid sizes\<close>

lemma is_pow2_iff: "is_pow2 k \<longleftrightarrow> (\<exists>n. k = 2 ^ n)"
proof (induction k rule: is_pow2.induct)
  case (1 k)
  show ?case
  proof (cases "k \<le> 1")
    case True
    have "k = 1 \<longleftrightarrow> (\<exists>n. k = 2 ^ n)"
    proof
      assume "k = 1"
      then have "k = 2 ^ 0" by simp
      then show "\<exists>n. k = 2 ^ n" ..
    next
      assume "\<exists>n. k = 2 ^ n"
      then obtain n where n: "k = 2 ^ n" ..
      have "(1::nat) \<le> 2 ^ n" by simp
      with n True show "k = 1" by linarith
    qed
    with True show ?thesis by (subst is_pow2.simps) simp
  next
    case False
    have "even k \<and> (\<exists>m. k div 2 = 2 ^ m) \<longleftrightarrow> (\<exists>n. k = 2 ^ n)"
    proof
      assume "even k \<and> (\<exists>m. k div 2 = 2 ^ m)"
      then obtain m where "even k" "k div 2 = 2 ^ m" by blast
      then have "k = 2 ^ Suc m" by auto
      then show "\<exists>n. k = 2 ^ n" ..
    next
      assume "\<exists>n. k = 2 ^ n"
      then obtain n where n: "k = 2 ^ n" ..
      with False have "n \<noteq> 0" by (cases n) auto
      then obtain m where m: "n = Suc m" by (cases n) auto
      with n have "even k" "k div 2 = 2 ^ m" by simp_all
      then show "even k \<and> (\<exists>m. k div 2 = 2 ^ m)" by blast
    qed
    with False "1.IH" show ?thesis by (subst is_pow2.simps) simp
  qed
qed

text \<open>\<open>valid_size\<close> is the form of the specification: \<open>2 ^ n + 1\<close> with \<open>n \<ge> 1\<close>.\<close>

lemma valid_size_iff: "valid_size sz \<longleftrightarrow> (\<exists>n\<ge>1. sz = 2 ^ n + 1)"
proof
  assume "valid_size sz"
  then have sz: "3 \<le> sz" and "is_pow2 (nat (sz - 1))" by (simp_all add: valid_size_def)
  then obtain n where n: "nat (sz - 1) = 2 ^ n" by (auto simp: is_pow2_iff)
  with sz have "n \<noteq> 0" by (cases n) auto
  moreover from n sz have "sz - 1 = int (2 ^ n)" by linarith
  then have "sz = 2 ^ n + 1" by simp
  ultimately show "\<exists>n\<ge>1. sz = 2 ^ n + 1" by (intro exI[of _ n]) simp
next
  assume "\<exists>n\<ge>1. sz = 2 ^ n + 1"
  then obtain n where n: "1 \<le> n" "sz = 2 ^ n + 1" by blast
  then obtain m where m: "n = Suc m" by (cases n) auto
  have "(1::int) \<le> 2 ^ m" by simp
  with n m have "3 \<le> sz" by simp
  moreover from n have "nat (sz - 1) = 2 ^ n" by (simp add: nat_power_eq)
  ultimately show "valid_size sz" by (auto simp: valid_size_def is_pow2_iff)
qed

lemma valid_size_ge_3: "valid_size sz \<Longrightarrow> 3 \<le> sz"
  by (simp add: valid_size_def)

lemma valid_size_3: "valid_size 3"
  by (simp add: valid_size_def is_pow2.simps)


section \<open>Size validation\<close>




section \<open>The count of the square step\<close>

text \<open>
  Claim C10. For a valid size the generation returns a grid: no \<^verbatim>\<open>squareStep\<close> it
  reaches stops on a count of zero. Every round has \<open>1 < stepSize < size\<close> and calls
  \<^verbatim>\<open>squareStep\<close> with \<open>stepSize / 2\<close>; for such a step the count is at least 1 at every
  position, with or without wrapping.
\<close>

theorem square_step_count_positive:
  assumes "valid_size sz"
  shows "(\<exists>g. generateDiamondSquareNoise twister sz roughness seed wrap = Inr g) \<and>
         (size' st = sz \<longrightarrow> 1 < stepSize \<longrightarrow> stepSize < sz \<longrightarrow>
            1 \<le> snd (squareStep_neighbours st x y (stepSize sdiv 2) wrap) \<and>
            squareStep st x y (stepSize sdiv 2) randomRange wrap \<noteq> Inl NotANumber)"
proof (intro conjI impI)
  from assms have "1 \<le> sz" by (simp add: valid_size_def)
  from generateDiamondSquareNoise_ok[OF this]
  show "\<exists>g. generateDiamondSquareNoise twister sz roughness seed wrap = Inr g" by blast
next
  assume a: "size' st = sz" "1 < stepSize" "stepSize < sz"
  then have "2 * (stepSize sdiv 2) \<le> size' st" by (simp add: sdiv_2_nonneg)
  then show c: "1 \<le> snd (squareStep_neighbours st x y (stepSize sdiv 2) wrap)"
    by (rule squareStep_count_pos)
  then show "squareStep st x y (stepSize sdiv 2) randomRange wrap \<noteq> Inl NotANumber"
    by (simp add: squareStep_NaN_iff)
qed

theorem square_step_count_positive_witness:
  "valid_size 3 \<and>
   (\<exists>g. generateDiamondSquareNoise flat_twister 3 (1 / 2) 0 False = Inr g) \<and>
   size' sample_grid = 3 \<and> (1::int) < 2 \<and> (2::int) < 3 \<and>
   1 \<le> snd (squareStep_neighbours sample_grid 1 0 (2 sdiv 2) False) \<and>
   snd (squareStep_neighbours sample_grid 1 0 1 False) = 3 \<and>
   squareStep sample_grid 1 0 (2 sdiv 2) 1 False \<noteq> Inl NotANumber"
proof -
  have "snd (squareStep_neighbours sample_grid 1 0 1 False) = 3"
    by (simp add: squareStep_neighbours_def sample_grid_def)
  moreover have "size' sample_grid = 3" by (simp add: sample_grid_def)
  ultimately show ?thesis
    using square_step_count_positive[OF valid_size_3, of flat_twister "1 / 2" 0 False
        sample_grid 2 1 0 1]
    by (simp add: valid_size_3)
qed

section \<open>Reads of the diamond step\<close>

lemma getHeight_no_wrap: "getHeight st x y False = corner_or_zero st x y"
  by (auto simp: getHeight_def corner_or_zero_def)

lemma getHeight_setHeight_same:
  assumes "grid_ok st" and "0 \<le> x" and "x < size' st" and "0 \<le> y" and "y < size' st"
  shows "getHeight (setHeight st x y v) x y False = v"
proof -
  from assms have x: "nat x < length (heightmap st)" by (simp add: grid_ok_def)
  then have "heightmap st ! nat x \<in> set (heightmap st)" by simp
  with assms have "nat y < length (heightmap st ! nat x)" by (simp add: grid_ok_def list_all_iff)
  with x assms show ?thesis
    by (simp add: getHeight_def setHeight_def)
qed

text \<open>
  Claim C9. \<^verbatim>\<open>diamondStep\<close> has no wrap parameter and reads its four corners with
  the default \<^verbatim>\<open>wrap = false\<close>, whatever flag \<^verbatim>\<open>generate\<close> was given. Such a read
  is the height of the cell, and 0 outside the grid; the four reads are always
  divided by 4; and the step is a total function that returns the new state.
\<close>

theorem diamond_step_reads:
  assumes "grid_ok st" and "0 \<le> x" and "x < size' st" and "0 \<le> y" and "y < size' st"
  shows "getHeight (diamondStep st x y stepSize randomRange) x y False =
           (corner_or_zero st (x - stepSize) (y - stepSize) +
            corner_or_zero st (x + stepSize) (y - stepSize) +
            corner_or_zero st (x - stepSize) (y + stepSize) +
            corner_or_zero st (x + stepSize) (y + stepSize)) / 4 +
           (shd (rng st) * randomRange * 2 - randomRange) \<and>
         (\<not> (0 \<le> cx \<and> cx < size' st \<and> 0 \<le> cy \<and> cy < size' st) \<longrightarrow>
            getHeight st cx cy False = 0)"
proof -
  from assms have "grid_ok (snd (dist_rng st))" "x < size' (snd (dist_rng st))"
    "y < size' (snd (dist_rng st))" by simp_all
  from getHeight_setHeight_same[OF this(1) assms(2) this(2) assms(4) this(3)]
  show ?thesis
    by (simp add: diamondStep_def Let_def case_prod_beta getHeight_no_wrap corner_or_zero_def)
qed

theorem diamond_step_reads_witness:
  "grid_ok sample_grid \<and> (0::int) \<le> 0 \<and> 0 < size' sample_grid \<and>
   \<not> (0 \<le> (-1::int) \<and> -1 < size' sample_grid \<and> 0 \<le> (-1::int) \<and> -1 < size' sample_grid) \<and>
   getHeight sample_grid (-1) (-1) False = 0 \<and>
   getHeight sample_grid (-1) (-1) True = 9 \<and>
   getHeight (diamondStep sample_grid 0 0 1 1) 0 0 False = 1 / 4"
proof -
  have g: "grid_ok sample_grid" by (simp add: grid_ok_def sample_grid_def)
  have s: "size' sample_grid = 3" by (simp add: sample_grid_def)
  have w: "getHeight sample_grid (-1) (-1) True = 9"
    by (simp add: getHeight_def sample_grid_def signed_modulo_int_def)
  have c: "corner_or_zero sample_grid 1 1 = 5" "corner_or_zero sample_grid (-1) (-1) = 0"
    "corner_or_zero sample_grid 1 (-1) = 0" "corner_or_zero sample_grid (-1) 1 = 0"
    by (simp_all add: corner_or_zero_def sample_grid_def)
  have r: "shd (rng sample_grid) = 0" by (simp add: sample_grid_def)
  from diamond_step_reads[OF g, of 0 0 1 1 "-1" "-1"] g s w c r
  show ?thesis by simp
qed

section \<open>Normalization\<close>











lemmas ds_loops = step_loop.simps diamond_y.simps diamond_x.simps square_y.simps square_x.simps

lemmas ds_steps = generate_rounds_def init_corners_def store_def dist_rng_def
  diamondStep_def squareStep_def squareStep_neighbours_def getHeight_def setHeight_def fdiv_def
  signed_divide_int_def signed_modulo_int_def numeral_3_eq_3 Let_def


lemma ramp_run:
  "map_sum id heightmap
     (generate_rounds \<lparr> heightmap = replicate 3 (replicate 3 0), size' = 3, rng = ramp_twister 0 \<rparr>
        (1 / 2) False)
   = Inr ramp_grid"
  by (simp add: ds_steps ds_loops ramp_twister_def ramp_grid_def)








end
